theory Spec2Isabelle
  imports Main "HOL-Library.Multiset"
begin

section \<open>JavaScript arrays\<close>

text \<open>
  Reading \<open>xs[i]\<close> yields \<open>undefined\<close> outside the array. For an editor input,
  \<open>undefined\<close> and \<open>null\<close> are both modelled as \<open>None\<close>: the source only ever tests
  them for truthiness. Group references are compared with \<open>===\<close> and keep the two
  apart (\<open>GroupRef\<close> below).
\<close>

definition js_get :: "'a list \<Rightarrow> int \<Rightarrow> 'a option" where
  "js_get xs i = (if 0 \<le> i \<and> i < int (length xs) then Some (xs ! nat i) else None)"

text \<open>
  \<open>Array.prototype.splice(start, deleteCount, ...items)\<close>: a negative start counts from
  the end, and both start and deleteCount are clamped to the array.
\<close>

definition splice_start :: "'a list \<Rightarrow> int \<Rightarrow> nat" where
  "splice_start xs start =
     (if start < 0 then nat (max (int (length xs) + start) 0) else min (nat start) (length xs))"

definition js_splice :: "'a list \<Rightarrow> int \<Rightarrow> nat \<Rightarrow> 'a list \<Rightarrow> 'a list" where
  "js_splice xs start deleteCount items =
     (let s = splice_start xs start in take s xs @ items @ drop (s + deleteCount) xs)"

section \<open>Editor inputs\<close>

text \<open>
  Modelled from the spec: the class \<open>EditorInput\<close> (and \<open>DiffEditorInput\<close>) is imported,
  not defined, by editorStacksModel.ts. An input is an object: \<open>oid\<close> is its identity, so
  that HOL equality of two inputs is the source's \<open>===\<close>. \<open>getId\<close> is the type id the
  factory registry is keyed by. The spec gives every input a \<open>matches(other)\<close> equivalence
  that may be coarser than identity; every equivalence is equality of some key, here
  \<open>mkey\<close>. A diff input wraps an original and a modified input.
\<close>

datatype EditorInput =
    EditorInput (oid: nat) (mkey: nat) (getId: string)
  | DiffEditorInput (oid: nat) (mkey: nat) (getId: string)
      (getOriginalInput: EditorInput) (getModifiedInput: EditorInput)

definition input_matches :: "EditorInput \<Rightarrow> EditorInput \<Rightarrow> bool" where
  "input_matches a b = (mkey a = mkey b)"

datatype Direction = LEFT | RIGHT

record IEditorOpenOptions =
  o_pinned :: bool
  o_active :: bool
  o_index :: "int option"

section \<open>EditorGroup\<close>

text \<open>
  The events a group fires, in firing order. Listeners run synchronously, so a close event
  carries, besides the \<open>IGroupEvent\<close> fields \<open>editor\<close> and \<open>pinned\<close>, the \<open>editors\<close>
  array of the group at the moment of firing: that is what the stacks model's listener
  observes through \<open>isOpen\<close>.
\<close>

datatype GroupEvent =
    EditorActivated EditorInput
  | EditorOpened EditorInput
  | EditorClosed EditorInput bool "EditorInput list"
  | EditorMoved EditorInput
  | EditorPinned EditorInput
  | EditorUnpinned EditorInput
  | EditorChanged EditorInput

record EditorGroup =
  gid :: nat
  label :: string
  editors :: "EditorInput list"
  mru :: "EditorInput list"
  preview :: "EditorInput option"
  active :: "EditorInput option"
  fired :: "GroupEvent list"

definition newEditorGroup :: "nat \<Rightarrow> string \<Rightarrow> EditorGroup" where
  "newEditorGroup i l =
     \<lparr>gid = i, label = l, editors = [], mru = [], preview = None, active = None, fired = []\<rparr>"

fun matches :: "EditorInput option \<Rightarrow> EditorInput option \<Rightarrow> bool" where
  "matches (Some editorA) (Some editorB) = input_matches editorA editorB"
| "matches _ _ = False"

fun indexOf_loop :: "EditorInput \<Rightarrow> EditorInput list \<Rightarrow> int \<Rightarrow> int" where
  "indexOf_loop candidate [] i = -1"
| "indexOf_loop candidate (e # es) i =
     (if matches (Some e) (Some candidate) then i else indexOf_loop candidate es (i + 1))"

definition indexOf_in :: "EditorInput option \<Rightarrow> EditorInput list \<Rightarrow> int" where
  "indexOf_in candidate eds =
     (case candidate of None \<Rightarrow> -1 | Some c \<Rightarrow> indexOf_loop c eds 0)"

definition indexOf :: "EditorGroup \<Rightarrow> EditorInput option \<Rightarrow> int" where
  "indexOf g candidate = indexOf_in candidate (editors g)"

definition getEditor :: "EditorGroup \<Rightarrow> int \<Rightarrow> EditorInput option" where
  "getEditor g index = js_get (editors g) index"

definition count_editors :: "EditorGroup \<Rightarrow> nat" where
  "count_editors g = length (editors g)"

definition isActive :: "EditorGroup \<Rightarrow> EditorInput option \<Rightarrow> bool" where
  "isActive g editor = matches (active g) editor"

definition isPreview :: "EditorGroup \<Rightarrow> EditorInput option \<Rightarrow> bool" where
  "isPreview g editor = matches (preview g) editor"

fun event_editor :: "GroupEvent \<Rightarrow> EditorInput" where
  "event_editor (EditorActivated e) = e"
| "event_editor (EditorOpened e) = e"
| "event_editor (EditorClosed e p s) = e"
| "event_editor (EditorMoved e) = e"
| "event_editor (EditorPinned e) = e"
| "event_editor (EditorUnpinned e) = e"
| "event_editor (EditorChanged e) = e"

definition fireEvent :: "EditorGroup \<Rightarrow> GroupEvent \<Rightarrow> EditorGroup" where
  "fireEvent g ev = g\<lparr>fired := fired g @ [ev, EditorChanged (event_editor ev)]\<rparr>"

text \<open>
  \<open>splice(index, del, editor?)\<close> is private and has two call sites, \<open>splice(i, false, editor)\<close>
  and \<open>splice(i, true)\<close>. Called with neither \<open>del\<close> nor an editor the source would store
  \<open>undefined\<close> in \<open>mru\<close>; no call does, and the model leaves \<open>mru\<close> alone there.
\<close>

definition splice_editor :: "EditorGroup \<Rightarrow> int \<Rightarrow> bool \<Rightarrow> EditorInput option \<Rightarrow> EditorGroup" where
  "splice_editor g index del editor =
     (let editorToDeleteOrReplace = js_get (editors g) index;
          g1 = g\<lparr>editors := js_splice (editors g) index (if del then 1 else 0)
                                (case editor of None \<Rightarrow> [] | Some e \<Rightarrow> [e])\<rparr>;
          indexInMRU = indexOf_in editorToDeleteOrReplace (mru g1)
      in case editor of
           Some e \<Rightarrow>
             if \<not> del then g1\<lparr>mru := mru g1 @ [e]\<rparr>
             else g1\<lparr>mru := js_splice (mru g1) indexInMRU 1 [e]\<rparr>
         | None \<Rightarrow>
             if del then g1\<lparr>mru := js_splice (mru g1) indexInMRU 1 []\<rparr>
             else g1)"

definition setMostRecentlyUsed :: "EditorGroup \<Rightarrow> EditorInput \<Rightarrow> EditorGroup" where
  "setMostRecentlyUsed g editor =
     (let index = indexOf g (Some editor) in
      if index = -1 then g
      else let mruIndex = indexOf_in (Some editor) (mru g)
           in g\<lparr>mru := editor # js_splice (mru g) mruIndex 1 []\<rparr>)"

definition setActive :: "EditorGroup \<Rightarrow> EditorInput option \<Rightarrow> EditorGroup" where
  "setActive g editor =
     (case editor of
        None \<Rightarrow> g
      | Some e \<Rightarrow>
          let index = indexOf g editor in
          if index = -1 then g
          else if matches (active g) editor then g
          else fireEvent (setMostRecentlyUsed (g\<lparr>active := Some e\<rparr>) e) (EditorActivated e))"

definition closeEditor :: "EditorGroup \<Rightarrow> EditorInput option \<Rightarrow> bool \<Rightarrow> EditorGroup" where
  "closeEditor g editor openNext =
     (case editor of
        None \<Rightarrow> g
      | Some e \<Rightarrow>
          let index = indexOf g editor in
          if index = -1 then g
          else
            let g1 = (if openNext \<and> matches (active g) editor
                      then (if length (mru g) > 1 then setActive g (js_get (mru g) 1)
                            else g\<lparr>active := None\<rparr>)
                      else g);
                isPrev = matches (preview g1) editor;
                g2 = (if isPrev then g1\<lparr>preview := None\<rparr> else g1);
                g3 = splice_editor g2 index True None
            in fireEvent g3 (EditorClosed e (\<not> isPrev) (editors g3)))"

fun closeLeft :: "EditorGroup \<Rightarrow> nat \<Rightarrow> EditorGroup" where
  "closeLeft g 0 = g"
| "closeLeft g (Suc i) = closeLeft (closeEditor g (js_get (editors g) (int i)) True) i"

fun closeRight :: "EditorGroup \<Rightarrow> int \<Rightarrow> nat \<Rightarrow> EditorGroup" where
  "closeRight g index 0 = g"
| "closeRight g index (Suc k) =
     closeRight (closeEditor g (js_get (editors g) (index + 1 + int k)) True) index k"

definition closeEach :: "EditorInput list \<Rightarrow> EditorGroup \<Rightarrow> EditorGroup" where
  "closeEach es g = fold (\<lambda>e h. closeEditor h (Some e) True) es g"

text \<open>
  The two \<open>for\<close> statements of \<open>closeEditors\<close>: to the left \<open>i\<close> runs from
  \<open>index - 1\<close> down to \<open>0\<close>; to the right from \<open>editors.length - 1\<close> (read once,
  at the start) down to \<open>index + 1\<close>; each iteration reads \<open>this.editors[i]\<close> from the
  current array.
\<close>

definition closeEditors :: "EditorGroup \<Rightarrow> EditorInput \<Rightarrow> Direction option \<Rightarrow> EditorGroup" where
  "closeEditors g except direction =
     (let index = indexOf g (Some except) in
      if index = -1 then g
      else case direction of
             Some LEFT \<Rightarrow> closeLeft g (nat index)
           | Some RIGHT \<Rightarrow> closeRight g index (length (editors g) - 1 - nat index)
           | None \<Rightarrow>
               closeEach (filter (\<lambda>e. \<not> matches (Some e) (Some except)) (mru g)) g)"

definition closeAllEditors :: "EditorGroup \<Rightarrow> EditorGroup" where
  "closeAllEditors g =
     (let g1 = closeEach (filter (\<lambda>e. \<not> matches (Some e) (active g)) (mru g)) g
      in closeEditor g1 (active g1) True)"

definition moveEditor :: "EditorGroup \<Rightarrow> EditorInput \<Rightarrow> int \<Rightarrow> EditorGroup" where
  "moveEditor g editor toIndex =
     (let index = indexOf g (Some editor) in
      if index < 0 then g
      else fireEvent
             (g\<lparr>editors := js_splice (js_splice (editors g) index 1 []) toIndex 0 [editor]\<rparr>)
             (EditorMoved editor))"

definition pin :: "EditorGroup \<Rightarrow> EditorInput \<Rightarrow> EditorGroup" where
  "pin g editor =
     (if \<not> isPreview g (Some editor) then g
      else fireEvent (g\<lparr>preview := None\<rparr>) (EditorPinned editor))"

definition isPinned :: "EditorGroup \<Rightarrow> EditorInput option \<Rightarrow> bool" where
  "isPinned g editor =
     (let index = indexOf g editor in
      if index = -1 then False
      else if preview g = None then True
      else \<not> matches (preview g) editor)"

definition unpin :: "EditorGroup \<Rightarrow> EditorInput \<Rightarrow> EditorGroup" where
  "unpin g editor =
     (if \<not> isPinned g (Some editor) then g
      else let oldPreview = preview g;
               g1 = fireEvent (g\<lparr>preview := Some editor\<rparr>) (EditorUnpinned editor)
           in closeEditor g1 oldPreview True)"

text \<open>
  \<open>openEditor\<close>. The module-level \<open>CONFIG_OPEN_EDITOR_DIRECTION\<close> is read at call time and
  is the first parameter here. \<open>options\<close> may be absent; an absent \<open>pinned\<close> or \<open>active\<close> is
  falsy, and \<open>typeof options.index === 'number'\<close> is \<open>o_index = Some i\<close>. The two listeners
  registered for the input's own dispose event only re-fire that event later and are not
  part of the state.
\<close>

definition openEditor ::
  "Direction \<Rightarrow> EditorGroup \<Rightarrow> EditorInput \<Rightarrow> IEditorOpenOptions option \<Rightarrow> EditorGroup" where
  "openEditor config g editor options =
     (let index = indexOf g (Some editor);
          makePinned = (case options of None \<Rightarrow> False | Some opt \<Rightarrow> o_pinned opt);
          makeActive = ((case options of None \<Rightarrow> False | Some opt \<Rightarrow> o_active opt)
                         \<or> active g = None
                         \<or> (\<not> makePinned \<and> matches (preview g) (active g)));
          optIndex = (case options of None \<Rightarrow> None | Some opt \<Rightarrow> o_index opt)
      in if index = -1 then
           let indexOfActive = indexOf g (active g);
               targetIndex =
                 (case optIndex of
                    Some i \<Rightarrow> i
                  | None \<Rightarrow>
                      if config = RIGHT then indexOfActive + 1
                      else if indexOfActive = 0 \<or> editors g = [] then 0
                      else indexOfActive - 1);
               g1 = (if makePinned \<or> preview g = None
                     then splice_editor g targetIndex False (Some editor) else g);
               g2 = (if \<not> makePinned then
                       (case preview g1 of
                          None \<Rightarrow> g1
                        | Some p \<Rightarrow>
                            let indexOfPreview = indexOf g1 (preview g1);
                                targetIndex' = (if targetIndex \<ge> indexOfPreview
                                                then targetIndex - 1 else targetIndex)
                            in splice_editor (closeEditor g1 (preview g1) (\<not> makeActive))
                                 targetIndex' False (Some editor))
                       \<lparr>preview := Some editor\<rparr>
                     else g1);
               g3 = fireEvent g2 (EditorOpened editor)
           in if makeActive then setActive g3 (Some editor) else g3
         else
           let g1 = (if makePinned then pin g editor else g);
               g2 = (if makeActive then setActive g1 (Some editor) else g1)
           in case optIndex of Some i \<Rightarrow> moveEditor g2 editor i | None \<Rightarrow> g2)"

section \<open>Serialisation of a group\<close>

record ISerializedEditorInput =
  s_id :: string
  s_value :: string

record ISerializedEditorGroup =
  s_label :: string
  s_editors :: "ISerializedEditorInput list"
  s_mru :: "int list"
  s_preview :: "int option"

text \<open>
  Modelled from the spec: the editor registry and its input factories are imported, not
  defined, by the source. \<open>getEditorInputFactory(id)\<close> yields a factory or \<open>undefined\<close>;
  \<open>factory.serialize\<close> yields a string or something that is not one (\<open>None\<close>);
  \<open>factory.deserialize\<close> builds an input from a string; as a function it gives one
  value for equal strings, where the source creates a new object at each call.
\<close>

record IEditorInputFactory =
  f_serialize :: "EditorInput \<Rightarrow> string option"
  f_deserialize :: "string \<Rightarrow> EditorInput"

type_synonym IEditorRegistry = "string \<Rightarrow> IEditorInputFactory option"

text \<open>
  One round of the \<open>forEach\<close> of \<open>serialize\<close>, on the triple \<open>serializableEditors\<close>,
  \<open>serializedEditors\<close>, \<open>serializablePreviewIndex\<close>. The preview is compared with \<open>===\<close>.
\<close>

definition serialize_step ::
  "IEditorRegistry \<Rightarrow> EditorInput option \<Rightarrow> EditorInput
     \<Rightarrow> EditorInput list \<times> ISerializedEditorInput list \<times> int option
     \<Rightarrow> EditorInput list \<times> ISerializedEditorInput list \<times> int option" where
  "serialize_step registry prev e acc =
     (case acc of (serializableEditors, serializedEditors, serializablePreviewIndex) \<Rightarrow>
        (case registry (getId e) of
           None \<Rightarrow> acc
         | Some factory \<Rightarrow>
             (case f_serialize factory e of
                None \<Rightarrow> acc
              | Some v \<Rightarrow>
                  (serializableEditors @ [e],
                   serializedEditors @ [\<lparr>s_id = getId e, s_value = v\<rparr>],
                   if prev = Some e then Some (int (length (serializableEditors @ [e])) - 1)
                   else serializablePreviewIndex))))"

definition serialize :: "IEditorRegistry \<Rightarrow> EditorGroup \<Rightarrow> ISerializedEditorGroup" where
  "serialize registry g =
     (case fold (serialize_step registry (preview g)) (editors g) ([], [], None) of
        (serializableEditors, serializedEditors, serializablePreviewIndex) \<Rightarrow>
          \<lparr>s_label = label g,
           s_editors = serializedEditors,
           s_mru = filter (\<lambda>i. i \<ge> 0)
                     (map (\<lambda>e. indexOf_in (Some e) serializableEditors) (mru g)),
           s_preview = serializablePreviewIndex\<rparr>)"

text \<open>
  What the source can do besides returning. \<open>TypeError\<close>: a property is read on
  \<open>undefined\<close>. \<open>SyntaxError\<close>: \<open>JSON.parse\<close> rejects its argument. \<open>UndefinedInMru\<close> is
  not an exception: \<open>deserialize\<close> maps an mru index outside \<open>editors\<close> to \<open>undefined\<close> and
  stores it in \<open>mru\<close>, a state that a list of inputs cannot hold; the model stops there.
\<close>

datatype error = TypeError | SyntaxError | UndefinedInMru

fun deserialize_editors ::
  "IEditorRegistry \<Rightarrow> ISerializedEditorInput list \<Rightarrow> error + EditorInput list" where
  "deserialize_editors registry [] = Inr []"
| "deserialize_editors registry (e # es) =
     (case registry (s_id e) of
        None \<Rightarrow> Inl TypeError
      | Some factory \<Rightarrow>
          (case deserialize_editors registry es of
             Inl err \<Rightarrow> Inl err
           | Inr rest \<Rightarrow> Inr (f_deserialize factory (s_value e) # rest)))"

fun deserialize_mru :: "EditorInput list \<Rightarrow> int list \<Rightarrow> error + EditorInput list" where
  "deserialize_mru eds [] = Inr []"
| "deserialize_mru eds (i # is) =
     (case js_get eds i of
        None \<Rightarrow> Inl UndefinedInMru
      | Some e \<Rightarrow>
          (case deserialize_mru eds is of
             Inl err \<Rightarrow> Inl err
           | Inr rest \<Rightarrow> Inr (e # rest)))"

text \<open>
  The constructor called with a serialized group: \<open>deserialize(data)\<close> on a fresh group
  with the given id. \<open>this.editors[data.preview]\<close> with an absent preview is \<open>undefined\<close>.
\<close>

definition deserialize ::
  "IEditorRegistry \<Rightarrow> nat \<Rightarrow> ISerializedEditorGroup \<Rightarrow> error + EditorGroup" where
  "deserialize registry i data =
     (case deserialize_editors registry (s_editors data) of
        Inl err \<Rightarrow> Inl err
      | Inr eds \<Rightarrow>
          (case deserialize_mru eds (s_mru data) of
             Inl err \<Rightarrow> Inl err
           | Inr m \<Rightarrow>
               Inr \<lparr>gid = i, label = s_label data, editors = eds, mru = m,
                    preview = (case s_preview data of None \<Rightarrow> None | Some p \<Rightarrow> js_get eds p),
                    active = js_get m 0, fired = []\<rparr>))"

section \<open>EditorStacksModel\<close>

text \<open>
  An array of group objects may have holes (\<open>openGroup\<close> can assign past its end): an
  element is \<open>Some\<close> reference or \<open>None\<close> for a hole. Reading a hole yields \<open>undefined\<close>;
  \<open>indexOf\<close>, \<open>filter\<close>, \<open>forEach\<close> and \<open>some\<close> skip holes.
\<close>

definition js_get_h :: "'a option list \<Rightarrow> int \<Rightarrow> 'a option" where
  "js_get_h xs i = (case js_get xs i of Some (Some v) \<Rightarrow> Some v | _ \<Rightarrow> None)"

definition js_set :: "'a option list \<Rightarrow> nat \<Rightarrow> 'a \<Rightarrow> 'a option list" where
  "js_set xs i v =
     (if i < length xs then xs[i := Some v]
      else xs @ replicate (i - length xs) None @ [Some v])"

fun js_indexOf_loop :: "'a \<Rightarrow> 'a option list \<Rightarrow> int \<Rightarrow> int" where
  "js_indexOf_loop v [] i = -1"
| "js_indexOf_loop v (x # xs) i = (if x = Some v then i else js_indexOf_loop v xs (i + 1))"

definition present :: "'a option list \<Rightarrow> 'a list" where
  "present xs = List.map_filter (\<lambda>x. x) xs"

text \<open>
  A value of type \<open>EditorGroup\<close> in the model class is \<open>undefined\<close>, \<open>null\<close> or a group
  object; \<open>setActive\<close> and \<open>closeGroups\<close> compare such values with \<open>===\<close>.
  \<open>_activeGroup\<close> is \<open>undefined\<close> in a new model and \<open>null\<close> after the only group was
  closed. \<open>falsy\<close> is the source's \<open>!group\<close>; \<open>ref_of\<close> turns an array read into a
  reference.
\<close>

datatype GroupRef = Undefined | Null | Ref nat

definition falsy :: "GroupRef \<Rightarrow> bool" where
  "falsy r = (case r of Ref _ \<Rightarrow> False | _ \<Rightarrow> True)"

definition ref_of :: "nat option \<Rightarrow> GroupRef" where
  "ref_of x = (case x of None \<Rightarrow> Undefined | Some g \<Rightarrow> Ref g)"

datatype ModelEvent =
    GroupOpened nat
  | GroupClosed nat
  | GroupActivated GroupRef
  | GroupMoved nat
  | ModelChanged GroupRef

text \<open>
  Groups are objects shared by reference between \<open>_groups\<close>, \<open>_activeGroup\<close>,
  \<open>groupToIdentifier\<close> and the callers: \<open>heap\<close> maps a reference to the object's state, and
  a reference is the group's id, which the static counter \<open>EditorGroup.IDS\<close> makes unique.
  \<open>listening\<close> holds the groups whose events still reach the listeners that
  \<open>doCreateGroup\<close> registers; \<open>closeCalls\<close> records the calls of \<open>editor.close()\<close>, in
  order; \<open>modelFired\<close> the events the model fires.
\<close>

record EditorStacksModel =
  IDS :: nat
  heap :: "nat \<Rightarrow> EditorGroup"
  loaded :: bool
  groups :: "nat option list"
  activeGroup :: GroupRef
  groupToIdentifier :: "nat \<Rightarrow> nat option"
  recentlyClosedEditors :: "ISerializedEditorInput list"
  listening :: "nat set"
  closeCalls :: "EditorInput list"
  modelFired :: "ModelEvent list"

definition newEditorStacksModel :: "nat \<Rightarrow> (nat \<Rightarrow> EditorGroup) \<Rightarrow> EditorStacksModel" where
  "newEditorStacksModel ids h =
     \<lparr>IDS = ids, heap = h, loaded = False, groups = [], activeGroup = Undefined,
      groupToIdentifier = (\<lambda>_. None), recentlyClosedEditors = [], listening = {},
      closeCalls = [], modelFired = []\<rparr>"

definition model_fireEvent ::
  "EditorStacksModel \<Rightarrow> ModelEvent \<Rightarrow> GroupRef \<Rightarrow> EditorStacksModel" where
  "model_fireEvent m ev grp = m\<lparr>modelFired := modelFired m @ [ev, ModelChanged grp]\<rparr>"

definition model_indexOf :: "EditorStacksModel \<Rightarrow> GroupRef \<Rightarrow> int" where
  "model_indexOf m grp =
     (case grp of Ref i \<Rightarrow> js_indexOf_loop i (groups m) 0 | _ \<Rightarrow> -1)"

definition isOpen :: "EditorStacksModel \<Rightarrow> EditorInput \<Rightarrow> bool" where
  "isOpen m editor = list_ex (\<lambda>i. indexOf (heap m i) (Some editor) \<ge> 0) (present (groups m))"

definition closeIfUnused :: "EditorInput \<Rightarrow> EditorStacksModel \<Rightarrow> EditorStacksModel" where
  "closeIfUnused editor m =
     (if \<not> isOpen m editor then m\<lparr>closeCalls := closeCalls m @ [editor]\<rparr> else m)"

text \<open>
  \<open>onEditorClosed(event)\<close>, the listener of every owned group's close event; \<open>editor\<close> and
  \<open>pinned\<close> are the fields of the event. \<open>closeIfUnused\<close> is the body of the \<open>forEach\<close>
  over the two inputs of a diff input.
\<close>

definition onEditorClosed ::
  "IEditorRegistry \<Rightarrow> EditorStacksModel \<Rightarrow> EditorInput \<Rightarrow> bool \<Rightarrow> EditorStacksModel" where
  "onEditorClosed registry m editor pinned =
     (let m1 = (if \<not> isOpen m editor then
                  (let m' = m\<lparr>closeCalls := closeCalls m @ [editor]\<rparr> in
                   case editor of
                     DiffEditorInput _ _ _ original modified \<Rightarrow>
                       fold closeIfUnused [original, modified] m'
                   | EditorInput _ _ _ \<Rightarrow> m')
                else m)
      in if pinned then
           (case registry (getId editor) of
              None \<Rightarrow> m1
            | Some factory \<Rightarrow>
                (case f_serialize factory editor of
                   None \<Rightarrow> m1
                 | Some v \<Rightarrow>
                     m1\<lparr>recentlyClosedEditors :=
                          take 10 (recentlyClosedEditors m1 @ [\<lparr>s_id = getId editor, s_value = v\<rparr>])\<rparr>))
         else m1)"

text \<open>
  The listeners \<open>l1\<close> and \<open>l2\<close> of \<open>doCreateGroup\<close>, run on one event fired by group \<open>i\<close>.
  The listener of a close event runs while the group's \<open>editors\<close> is the array recorded
  in the event; the other groups do not change during a call of a group method.
\<close>

definition deliver ::
  "IEditorRegistry \<Rightarrow> nat \<Rightarrow> EditorStacksModel \<Rightarrow> GroupEvent \<Rightarrow> EditorStacksModel" where
  "deliver registry i m ev =
     (case ev of
        EditorClosed e pinned snapshot \<Rightarrow>
          (let m' = onEditorClosed registry
                      (m\<lparr>heap := (heap m)(i := (heap m i)\<lparr>editors := snapshot\<rparr>)\<rparr>) e pinned
           in m'\<lparr>heap := heap m\<rparr>)
      | EditorChanged e \<Rightarrow> m\<lparr>modelFired := modelFired m @ [ModelChanged (Ref i)]\<rparr>
      | _ \<Rightarrow> m)"

text \<open>
  A call \<open>group.f(...)\<close> by a client on the group object \<open>i\<close>: the object is updated in
  place and the events fired during the call are delivered in firing order.
\<close>

definition inGroup ::
  "IEditorRegistry \<Rightarrow> EditorStacksModel \<Rightarrow> nat \<Rightarrow> (EditorGroup \<Rightarrow> EditorGroup)
     \<Rightarrow> EditorStacksModel" where
  "inGroup registry m i f =
     (let g = heap m i;
          g' = f g;
          m1 = m\<lparr>heap := (heap m)(i := g')\<rparr>
      in if i \<in> listening m
         then foldl (deliver registry i) m1 (drop (length (fired g)) (fired g'))
         else m1)"

text \<open>
  \<open>doCreateGroup\<close> takes a label or a serialized group; the two cases are two functions
  here, since only the second can throw. Every public method of the model starts with
  \<open>ensureLoaded()\<close>, which does nothing once \<open>loaded\<close> is set; the definitions below are
  the method bodies after that call.
\<close>

definition doCreateGroup :: "EditorStacksModel \<Rightarrow> string \<Rightarrow> nat \<times> EditorStacksModel" where
  "doCreateGroup m l =
     (let i = IDS m
      in (i, m\<lparr>IDS := i + 1, heap := (heap m)(i := newEditorGroup i l),
               listening := insert i (listening m)\<rparr>))"

definition doCreateGroup_serialized ::
  "IEditorRegistry \<Rightarrow> EditorStacksModel \<Rightarrow> ISerializedEditorGroup
     \<Rightarrow> error + nat \<times> EditorStacksModel" where
  "doCreateGroup_serialized registry m data =
     (let i = IDS m in
      case deserialize registry i data of
        Inl err \<Rightarrow> Inl err
      | Inr g \<Rightarrow> Inr (i, m\<lparr>IDS := i + 1, heap := (heap m)(i := g),
                           listening := insert i (listening m)\<rparr>))"

definition model_setActive :: "EditorStacksModel \<Rightarrow> GroupRef \<Rightarrow> EditorStacksModel" where
  "model_setActive m grp =
     (if activeGroup m = grp then m
      else model_fireEvent (m\<lparr>activeGroup := grp\<rparr>) (GroupActivated grp) grp)"

text \<open>\<open>index\<close> is \<open>Some i\<close> when \<open>typeof index === 'number'\<close>, for an array index \<open>i\<close>.\<close>

definition openGroup ::
  "EditorStacksModel \<Rightarrow> string \<Rightarrow> bool \<Rightarrow> nat option \<Rightarrow> nat \<times> EditorStacksModel" where
  "openGroup m l activate index =
     (case doCreateGroup m l of (grp, m1) \<Rightarrow>
        let m2 = (case index of
                    Some ix \<Rightarrow> m1\<lparr>groups := js_set (groups m1) ix grp\<rparr>
                  | None \<Rightarrow>
                      if falsy (activeGroup m1) then m1\<lparr>groups := groups m1 @ [Some grp]\<rparr>
                      else m1\<lparr>groups := js_splice (groups m1)
                                 (model_indexOf m1 (activeGroup m1) + 1) 0 [Some grp]\<rparr>);
            m3 = m2\<lparr>groupToIdentifier := (groupToIdentifier m2)(grp := Some grp)\<rparr>;
            m4 = model_fireEvent m3 (GroupOpened grp) (Ref grp);
            m5 = (if falsy (activeGroup m4) \<or> activate
                  then model_setActive m4 (Ref grp) else m4)
        in (grp, m5))"

text \<open>\<open>group.dispose()\<close> disposes the group's emitters, after which no listener is reached.\<close>

definition closeGroup ::
  "IEditorRegistry \<Rightarrow> EditorStacksModel \<Rightarrow> GroupRef \<Rightarrow> EditorStacksModel" where
  "closeGroup registry m grp =
     (case grp of
        Ref i \<Rightarrow>
          (let index = model_indexOf m grp in
           if index < 0 then m
           else
             let m1 = (if grp = activeGroup m then
                         (if length (groups m) > 1 then
                            (let newActiveGroup =
                                   (if int (length (groups m)) > index + 1
                                    then ref_of (js_get_h (groups m) (index + 1))
                                    else ref_of (js_get_h (groups m) (index - 1)))
                             in model_setActive m newActiveGroup)
                          else m\<lparr>activeGroup := Null\<rparr>)
                       else m);
                 m2 = inGroup registry m1 i closeAllEditors;
                 m3 = m2\<lparr>listening := listening m2 - {i}\<rparr>;
                 m4 = m3\<lparr>groups := js_splice (groups m3) index 1 [],
                         groupToIdentifier := (groupToIdentifier m3)(i := None)\<rparr>
             in model_fireEvent m4 (GroupClosed i) (Ref i))
      | _ \<Rightarrow> m)"

definition closeGroups ::
  "IEditorRegistry \<Rightarrow> EditorStacksModel \<Rightarrow> GroupRef \<Rightarrow> EditorStacksModel" where
  "closeGroups registry m except =
     (let others = filter (\<lambda>g. Ref g \<noteq> activeGroup m \<and> Ref g \<noteq> except) (present (groups m));
          m1 = fold (\<lambda>g mm. closeGroup registry mm (Ref g)) others m
      in if activeGroup m1 \<noteq> except then closeGroup registry m1 (activeGroup m1) else m1)"

definition moveGroup :: "EditorStacksModel \<Rightarrow> GroupRef \<Rightarrow> int \<Rightarrow> EditorStacksModel" where
  "moveGroup m grp toIndex =
     (case grp of
        Ref i \<Rightarrow>
          (let index = model_indexOf m grp in
           if index < 0 then m
           else model_fireEvent
                  (m\<lparr>groups := js_splice (js_splice (groups m) index 1 []) toIndex 0 [Some i]\<rparr>)
                  (GroupMoved i) grp)
      | _ \<Rightarrow> m)"

record IEditorIdentifier =
  ei_group :: nat
  ei_editor :: "EditorInput option"

text \<open>
  \<open>next()\<close> and \<open>previous()\<close>. \<open>firstGroup.getEditor(0)\<close> and \<open>lastGroup.getEditor(...)\<close>
  throw when \<open>this.groups[0]\<close>, respectively the last element, is \<open>undefined\<close>.
\<close>

definition model_next :: "EditorStacksModel \<Rightarrow> error + IEditorIdentifier option" where
  "model_next m =
     (case activeGroup m of
        Undefined \<Rightarrow> Inr None
      | Null \<Rightarrow> Inr None
      | Ref a \<Rightarrow>
          let index = indexOf (heap m a) (active (heap m a)) in
          if index + 1 < int (count_editors (heap m a))
          then Inr (Some \<lparr>ei_group = a, ei_editor = getEditor (heap m a) (index + 1)\<rparr>)
          else
            let indexOfGroup = model_indexOf m (activeGroup m) in
            (case js_get_h (groups m) (indexOfGroup + 1) of
               Some nextGroup \<Rightarrow>
                 Inr (Some \<lparr>ei_group = nextGroup, ei_editor = getEditor (heap m nextGroup) 0\<rparr>)
             | None \<Rightarrow>
                 (case js_get_h (groups m) 0 of
                    Some firstGroup \<Rightarrow>
                      Inr (Some \<lparr>ei_group = firstGroup,
                                 ei_editor = getEditor (heap m firstGroup) 0\<rparr>)
                  | None \<Rightarrow> Inl TypeError)))"

definition model_previous :: "EditorStacksModel \<Rightarrow> error + IEditorIdentifier option" where
  "model_previous m =
     (case activeGroup m of
        Undefined \<Rightarrow> Inr None
      | Null \<Rightarrow> Inr None
      | Ref a \<Rightarrow>
          let index = indexOf (heap m a) (active (heap m a)) in
          if index > 0
          then Inr (Some \<lparr>ei_group = a, ei_editor = getEditor (heap m a) (index - 1)\<rparr>)
          else
            let indexOfGroup = model_indexOf m (activeGroup m) in
            (case js_get_h (groups m) (indexOfGroup - 1) of
               Some previousGroup \<Rightarrow>
                 Inr (Some \<lparr>ei_group = previousGroup,
                            ei_editor = getEditor (heap m previousGroup)
                                          (int (count_editors (heap m previousGroup)) - 1)\<rparr>)
             | None \<Rightarrow>
                 (case js_get_h (groups m) (int (length (groups m)) - 1) of
                    Some lastGroup \<Rightarrow>
                      Inr (Some \<lparr>ei_group = lastGroup,
                                 ei_editor = getEditor (heap m lastGroup)
                                               (int (count_editors (heap m lastGroup)) - 1)\<rparr>)
                  | None \<Rightarrow> Inl TypeError)))"

definition popLastClosedEditor ::
  "IEditorRegistry \<Rightarrow> EditorStacksModel \<Rightarrow> error + EditorInput option \<times> EditorStacksModel" where
  "popLastClosedEditor registry m =
     (if recentlyClosedEditors m = [] then Inr (None, m)
      else
        let serializedEditor = last (recentlyClosedEditors m);
            m1 = m\<lparr>recentlyClosedEditors := butlast (recentlyClosedEditors m)\<rparr>
        in case registry (s_id serializedEditor) of
             None \<Rightarrow> Inl TypeError
           | Some factory \<Rightarrow> Inr (Some (f_deserialize factory (s_value serializedEditor)), m1))"

definition clearLastClosedEditors :: "EditorStacksModel \<Rightarrow> EditorStacksModel" where
  "clearLastClosedEditors m = m\<lparr>recentlyClosedEditors := []\<rparr>"

section \<open>Persistence\<close>

record ISerializedEditorStacksModel =
  s_groups :: "ISerializedEditorGroup list"
  s_active :: "int option"
  s_lastClosed :: "ISerializedEditorInput list option"

definition doValidate :: "ISerializedEditorStacksModel \<Rightarrow> nat" where
  "doValidate serialized =
     (if s_groups serialized = [] \<and> s_active serialized \<noteq> None then 1
      else if s_groups serialized \<noteq> []
              \<and> (case s_active serialized of
                    None \<Rightarrow> True
                  | Some a \<Rightarrow> js_get (s_groups serialized) a = None) then 2
      else if length (s_groups serialized) > 3 then 3
      else if list_ex (\<lambda>g. s_editors g = []) (s_groups serialized) then 4
      else if list_ex (\<lambda>g. length (s_editors g) \<noteq> length (s_mru g)) (s_groups serialized) then 5
      else if list_ex (\<lambda>g. case s_preview g of
                               None \<Rightarrow> False
                             | Some p \<Rightarrow> js_get (s_editors g) p = None) (s_groups serialized) then 6
      else if list_ex (\<lambda>g. s_label g = []) (s_groups serialized) then 7
      else 0)"

text \<open>
  The storage and context services, as far as \<open>load\<close> reads them. \<open>filesRequested\<close>: the
  workspace options name files to create, open or diff. \<open>modelRaw\<close>: nothing stored, a
  string that \<open>JSON.parse\<close> rejects, or a value of the declared type
  \<open>ISerializedEditorStacksModel\<close> (numbers being array indices). \<open>legacyModelRaw\<close>: nothing
  stored, a value on which parsing or a property access fails, or the list of stored
  editors.
\<close>

datatype StoredBlob = Absent | Unparsable | Parsed ISerializedEditorStacksModel

datatype LegacyBlob = NoLegacy | BadLegacy | Legacy "ISerializedEditorInput list"

record Workspace =
  filesRequested :: bool
  modelRaw :: StoredBlob
  legacyModelRaw :: LegacyBlob

fun createGroups ::
  "IEditorRegistry \<Rightarrow> EditorStacksModel \<Rightarrow> ISerializedEditorGroup list
     \<Rightarrow> error + nat list \<times> EditorStacksModel" where
  "createGroups registry m [] = Inr ([], m)"
| "createGroups registry m (s # ss) =
     (case doCreateGroup_serialized registry m s of
        Inl err \<Rightarrow> Inl err
      | Inr (g, m1) \<Rightarrow>
          (case createGroups registry m1 ss of
             Inl err \<Rightarrow> Inl err
           | Inr (gs, m2) \<Rightarrow> Inr (g # gs, m2)))"

definition migrate_open ::
  "IEditorRegistry \<Rightarrow> Direction \<Rightarrow> EditorStacksModel \<Rightarrow> EditorInput \<Rightarrow> EditorStacksModel" where
  "migrate_open registry config m e =
     (case openGroup m [] True None of (grp, m1) \<Rightarrow>
        inGroup registry m1 grp
          (\<lambda>g. openEditor config g e (Some \<lparr>o_pinned = False, o_active = True, o_index = None\<rparr>)))"

definition reset :: "EditorStacksModel \<Rightarrow> EditorStacksModel" where
  "reset m = m\<lparr>groups := [], activeGroup := Undefined, groupToIdentifier := (\<lambda>_. None),
               recentlyClosedEditors := []\<rparr>"

text \<open>
  \<open>migrate\<close>: everything that can throw inside the \<open>try\<close> does so before the first group
  is opened; the \<open>catch\<close> resets the model. The three \<open>if (editors.length > k)\<close> blocks
  open one group for each of the first three editors, in order (\<open>migrate_open\<close>), and
  the legacy key is removed afterwards.
\<close>

definition migrate ::
  "IEditorRegistry \<Rightarrow> Direction \<Rightarrow> Workspace \<Rightarrow> EditorStacksModel
     \<Rightarrow> Workspace \<times> EditorStacksModel" where
  "migrate registry config w m =
     (case legacyModelRaw w of
        NoLegacy \<Rightarrow> (w, m)
      | BadLegacy \<Rightarrow> (w, reset m)
      | Legacy editorsRaw \<Rightarrow>
          (case deserialize_editors registry editorsRaw of
             Inl err \<Rightarrow> (w, reset m)
           | Inr eds \<Rightarrow>
               (w\<lparr>legacyModelRaw := NoLegacy\<rparr>,
                fold (\<lambda>e mm. migrate_open registry config mm e) (take 3 eds) m)))"

definition load ::
  "IEditorRegistry \<Rightarrow> Direction \<Rightarrow> Workspace \<Rightarrow> EditorStacksModel
     \<Rightarrow> error + Workspace \<times> EditorStacksModel" where
  "load registry config w m =
     (if filesRequested w then Inr (w, m)
      else case modelRaw w of
             Unparsable \<Rightarrow> Inl SyntaxError
           | Parsed serialized \<Rightarrow>
               if doValidate serialized \<noteq> 0 then Inr (w, m)
               else (case createGroups registry m (s_groups serialized) of
                       Inl err \<Rightarrow> Inl err
                     | Inr (gs, m1) \<Rightarrow>
                         Inr (w, m1\<lparr>groups := map Some gs,
                                    activeGroup :=
                                      ref_of (case s_active serialized of
                                                None \<Rightarrow> None | Some a \<Rightarrow> js_get gs a),
                                    groupToIdentifier :=
                                      fold (\<lambda>g f. f(g := Some g)) gs (groupToIdentifier m1),
                                    recentlyClosedEditors :=
                                      (case s_lastClosed serialized of
                                         None \<Rightarrow> [] | Some l \<Rightarrow> l)\<rparr>))
           | Absent \<Rightarrow> Inr (migrate registry config w m))"

definition ensureLoaded ::
  "IEditorRegistry \<Rightarrow> Direction \<Rightarrow> Workspace \<Rightarrow> EditorStacksModel
     \<Rightarrow> error + Workspace \<times> EditorStacksModel" where
  "ensureLoaded registry config w m =
     (if \<not> loaded m then load registry config w (m\<lparr>loaded := True\<rparr>) else Inr (w, m))"

section \<open>The group view\<close>

text \<open>
  \<open>NextEditorGroupView\<close>, as far as it updates its group: the title and editor controls
  only render. \<open>enablePreview\<close> is \<open>accessor.partOptions.enablePreview\<close>. In
  \<open>EditorOptions\<close> an absent \<open>pinned\<close> or \<open>inactive\<close> is falsy.
\<close>

record EditorOptions =
  eo_index :: "int option"
  eo_pinned :: bool
  eo_inactive :: bool

record NextEditorGroupView =
  v_group :: EditorGroup
  enablePreview :: bool

text \<open>\<open>pinEditor(editor = this.activeEditor)\<close>: \<open>None\<close> is the omitted argument.\<close>

definition pinEditor :: "NextEditorGroupView \<Rightarrow> EditorInput option \<Rightarrow> NextEditorGroupView" where
  "pinEditor v arg =
     (case (case arg of None \<Rightarrow> active (v_group v) | Some e \<Rightarrow> Some e) of
        None \<Rightarrow> v
      | Some editor \<Rightarrow>
          if \<not> isPinned (v_group v) (Some editor)
          then v\<lparr>v_group := pin (v_group v) editor\<rparr>
          else v)"

definition onDidEditorBecomeDirty ::
  "NextEditorGroupView \<Rightarrow> EditorInput \<Rightarrow> NextEditorGroupView" where
  "onDidEditorBecomeDirty v editor = pinEditor v (Some editor)"

text \<open>
  The options \<open>doOpenEditor\<close> hands to the group, after its special case; \<open>isDirty\<close> is what
  \<open>editor.isDirty()\<close> returns at the call.
\<close>

definition openEditorOptions ::
  "NextEditorGroupView \<Rightarrow> bool \<Rightarrow> EditorOptions option \<Rightarrow> IEditorOpenOptions" where
  "openEditorOptions v isDirty options =
     (let index = (case options of None \<Rightarrow> None | Some opt \<Rightarrow> eo_index opt);
          pinned = (\<not> enablePreview v \<or> isDirty
                     \<or> (case options of None \<Rightarrow> False | Some opt \<Rightarrow> eo_pinned opt)
                     \<or> (case options of None \<Rightarrow> False | Some opt \<Rightarrow> eo_index opt \<noteq> None));
          act = (count_editors (v_group v) = 0
                   \<or> (case options of None \<Rightarrow> True | Some opt \<Rightarrow> \<not> eo_inactive opt))
      in \<lparr>o_pinned = pinned,
          o_active = (if \<not> act \<and> \<not> pinned \<and> isPreview (v_group v) (active (v_group v))
                      then True else act),
          o_index = index\<rparr>)"

definition doOpenEditor ::
  "Direction \<Rightarrow> NextEditorGroupView \<Rightarrow> EditorInput \<Rightarrow> bool \<Rightarrow> EditorOptions option
     \<Rightarrow> NextEditorGroupView" where
  "doOpenEditor config v editor isDirty options =
     v\<lparr>v_group := openEditor config (v_group v) editor
                     (Some (openEditorOptions v isDirty options))\<rparr>"

section \<open>Sequences of group operations\<close>

datatype GroupOp =
    OpenEditor Direction EditorInput "IEditorOpenOptions option"
  | CloseEditor "EditorInput option" bool
  | CloseEditors EditorInput "Direction option"
  | CloseAllEditors
  | MoveEditor EditorInput int
  | SetActive "EditorInput option"
  | Pin EditorInput
  | Unpin EditorInput

fun apply_op :: "EditorGroup \<Rightarrow> GroupOp \<Rightarrow> EditorGroup" where
  "apply_op g (OpenEditor config e options) = openEditor config g e options"
| "apply_op g (CloseEditor e openNext) = closeEditor g e openNext"
| "apply_op g (CloseEditors except direction) = closeEditors g except direction"
| "apply_op g CloseAllEditors = closeAllEditors g"
| "apply_op g (MoveEditor e toIndex) = moveEditor g e toIndex"
| "apply_op g (SetActive e) = setActive g e"
| "apply_op g (Pin e) = pin g e"
| "apply_op g (Unpin e) = unpin g e"

definition run_ops :: "EditorGroup \<Rightarrow> GroupOp list \<Rightarrow> EditorGroup" where
  "run_ops g ops = foldl apply_op g ops"

fun opens_next :: "GroupOp \<Rightarrow> bool" where
  "opens_next (CloseEditor e openNext) = openNext"
| "opens_next _ = True"

text \<open>The invariants of a group, in the words of the specification.\<close>

definition same_length :: "EditorGroup \<Rightarrow> bool" where
  "same_length g = (length (editors g) = length (mru g))"

definition mru_permutes_editors :: "EditorGroup \<Rightarrow> bool" where
  "mru_permutes_editors g = (mset (map mkey (mru g)) = mset (map mkey (editors g)))"

definition null_or_present :: "EditorGroup \<Rightarrow> EditorInput option \<Rightarrow> bool" where
  "null_or_present g x = (x = None \<or> indexOf g x \<ge> 0)"

definition at_most_one_preview :: "EditorGroup \<Rightarrow> bool" where
  "at_most_one_preview g = (length (filter (\<lambda>e. isPreview g (Some e)) (editors g)) \<le> 1)"

definition group_invariants :: "EditorGroup \<Rightarrow> bool" where
  "group_invariants g =
     (same_length g \<and> mru_permutes_editors g \<and> null_or_present g (active g)
      \<and> null_or_present g (preview g) \<and> at_most_one_preview g)"

text \<open>
  What the operations maintain: no two editors of a group match, \<open>mru\<close> holds the same
  editors up to \<open>matches\<close>, and the preview is one of them; and, as long as no editor is
  closed with \<open>openNext = false\<close>, the active editor heads \<open>mru\<close>.
\<close>

definition inv_core :: "EditorGroup \<Rightarrow> bool" where
  "inv_core g =
     (distinct (map mkey (editors g))
      \<and> mset (map mkey (mru g)) = mset (map mkey (editors g))
      \<and> (case preview g of None \<Rightarrow> True | Some p \<Rightarrow> mkey p \<in> set (map mkey (editors g))))"

definition inv_active :: "EditorGroup \<Rightarrow> bool" where
  "inv_active g =
     (case active g of
        None \<Rightarrow> True
      | Some a \<Rightarrow> mru g \<noteq> [] \<and> mkey (hd (mru g)) = mkey a)"

text \<open>
  The local constants \<open>makePinned\<close>, \<open>makeActive\<close> and \<open>targetIndex\<close> (before its
  adjustment for the closed preview) of \<open>openEditor\<close>, named for the statements below.
\<close>

definition makePinned :: "IEditorOpenOptions option \<Rightarrow> bool" where
  "makePinned options = (case options of None \<Rightarrow> False | Some opt \<Rightarrow> o_pinned opt)"

definition makeActive :: "EditorGroup \<Rightarrow> IEditorOpenOptions option \<Rightarrow> bool" where
  "makeActive g options =
     ((case options of None \<Rightarrow> False | Some opt \<Rightarrow> o_active opt)
      \<or> active g = None
      \<or> (\<not> makePinned options \<and> matches (preview g) (active g)))"

definition targetIndex :: "Direction \<Rightarrow> EditorGroup \<Rightarrow> IEditorOpenOptions option \<Rightarrow> int" where
  "targetIndex config g options =
     (case (case options of None \<Rightarrow> None | Some opt \<Rightarrow> o_index opt) of
        Some i \<Rightarrow> i
      | None \<Rightarrow>
          if config = RIGHT then indexOf g (active g) + 1
          else if indexOf g (active g) = 0 \<or> editors g = [] then 0
          else indexOf g (active g) - 1)"

text \<open>
  The seven violations of a persisted model, in the words of the specification; the
  statement about \<open>doValidate\<close> below compares the code with them.
\<close>

definition active_without_groups :: "ISerializedEditorStacksModel \<Rightarrow> bool" where
  "active_without_groups s = (s_active s \<noteq> None \<and> length (s_groups s) = 0)"

definition active_unresolved :: "ISerializedEditorStacksModel \<Rightarrow> bool" where
  "active_unresolved s =
     (length (s_groups s) > 0
      \<and> (case s_active s of
            None \<Rightarrow> True
          | Some a \<Rightarrow> a < 0 \<or> int (length (s_groups s)) \<le> a))"

definition too_many_groups :: "ISerializedEditorStacksModel \<Rightarrow> bool" where
  "too_many_groups s = (length (s_groups s) > 3)"

definition has_empty_group :: "ISerializedEditorStacksModel \<Rightarrow> bool" where
  "has_empty_group s = (\<exists>g \<in> set (s_groups s). length (s_editors g) = 0)"

definition mru_length_mismatch :: "ISerializedEditorStacksModel \<Rightarrow> bool" where
  "mru_length_mismatch s = (\<exists>g \<in> set (s_groups s). length (s_editors g) \<noteq> length (s_mru g))"

definition preview_out_of_range :: "ISerializedEditorStacksModel \<Rightarrow> bool" where
  "preview_out_of_range s =
     (\<exists>g \<in> set (s_groups s).
        case s_preview g of
          None \<Rightarrow> False
        | Some p \<Rightarrow> p < 0 \<or> int (length (s_editors g)) \<le> p)"

definition has_empty_label :: "ISerializedEditorStacksModel \<Rightarrow> bool" where
  "has_empty_label s = (\<exists>g \<in> set (s_groups s). length (s_label g) = 0)"

text \<open>
  \<open>next()\<close> and \<open>previous()\<close> start from the active editor of the active group.
  \<open>currentAt m x\<close> is the model \<open>m\<close> in which \<open>x\<close> is that starting point; \<open>groups\<close> and
  every group's \<open>editors\<close> are those of \<open>m\<close>. In a stable model \<open>groups\<close> has no hole
  and no group twice, and no two editors of a group match.
\<close>

definition currentAt :: "EditorStacksModel \<Rightarrow> IEditorIdentifier \<Rightarrow> EditorStacksModel" where
  "currentAt m x =
     m\<lparr>activeGroup := Ref (ei_group x),
       heap := (heap m)(ei_group x := (heap m (ei_group x))\<lparr>active := ei_editor x\<rparr>)\<rparr>"

definition stable_model :: "EditorStacksModel \<Rightarrow> bool" where
  "stable_model m =
     (None \<notin> set (groups m) \<and> distinct (groups m)
      \<and> (\<forall>i \<in> set (present (groups m)). distinct (map mkey (editors (heap m i)))))"

text \<open>
  The flattened sequence of all groups' editors, in the words of the specification:
  group order, then editor order within the group, each editor with its group.
\<close>

definition flattened :: "EditorStacksModel \<Rightarrow> IEditorIdentifier list" where
  "flattened m =
     concat (map (\<lambda>g. map (\<lambda>e. \<lparr>ei_group = g, ei_editor = Some e\<rparr>) (editors (heap m g)))
               (present (groups m)))"

definition no_empty_group :: "EditorStacksModel \<Rightarrow> bool" where
  "no_empty_group m = list_all (\<lambda>g. editors (heap m g) \<noteq> []) (present (groups m))"


section \<open>Properties of the array operations and of indexOf\<close>

lemma splice_start_le: "splice_start xs i \<le> length xs"
  by (auto simp: splice_start_def)

lemma splice_start_nonneg:
  "0 \<le> i \<Longrightarrow> i \<le> int (length xs) \<Longrightarrow> splice_start xs i = nat i"
  by (auto simp: splice_start_def)

lemma mset_js_splice_insert: "mset (js_splice xs i 0 ys) = mset xs + mset ys"
proof -
  have "mset (take n xs @ ys @ drop n xs) = mset xs + mset ys" for n
    by (metis append_take_drop_id mset_append union_assoc union_commute)
  then show ?thesis by (simp add: js_splice_def Let_def)
qed

lemma map_js_splice: "map f (js_splice xs i d ys) = js_splice (map f xs) i d (map f ys)"
  by (simp add: js_splice_def splice_start_def Let_def take_map drop_map)

lemma js_splice_remove_at:
  "0 \<le> i \<Longrightarrow> i < int (length xs) \<Longrightarrow>
     js_splice xs i 1 [] = take (nat i) xs @ drop (Suc (nat i)) xs"
  by (simp add: js_splice_def splice_start_nonneg Let_def)

lemma js_get_Some: "0 \<le> i \<Longrightarrow> i < int (length xs) \<Longrightarrow> js_get xs i = Some (xs ! nat i)"
  by (simp add: js_get_def)



lemma indexOf_loop_notin:
  "mkey c \<notin> set (map mkey xs) \<Longrightarrow> indexOf_loop c xs i = -1"
  by (induction xs arbitrary: i) (auto simp: input_matches_def)

lemma indexOf_loop_in:
  "mkey c \<in> set (map mkey xs) \<Longrightarrow> 0 \<le> i \<Longrightarrow>
     i \<le> indexOf_loop c xs i \<and> indexOf_loop c xs i < i + int (length xs)
     \<and> mkey (xs ! nat (indexOf_loop c xs i - i)) = mkey c
     \<and> map mkey (take (nat (indexOf_loop c xs i - i)) xs
                  @ drop (Suc (nat (indexOf_loop c xs i - i))) xs)
         = remove1 (mkey c) (map mkey xs)"
proof (induction xs arbitrary: i)
  case Nil
  then show ?case by simp
next
  case (Cons x xs)
  show ?case
  proof (cases "mkey x = mkey c")
    case True
    then show ?thesis using Cons.prems by (simp add: input_matches_def)
  next
    case False
    then have in': "mkey c \<in> set (map mkey xs)" using Cons.prems by auto
    have i1: "0 \<le> i + 1" using Cons.prems by simp
    note IH = Cons.IH [OF in' i1]
    let ?r = "indexOf_loop c xs (i + 1)"
    have eq: "indexOf_loop c (x # xs) i = ?r" using False by (simp add: input_matches_def)
    have n: "nat (?r - i) = Suc (nat (?r - (i + 1)))" using IH by linarith
    show ?thesis unfolding eq n using IH False by auto
  qed
qed

lemma indexOf_in_None [simp]: "indexOf_in None xs = -1"
  by (simp add: indexOf_in_def)

lemma indexOf_in_notin:
  "mkey c \<notin> set (map mkey xs) \<Longrightarrow> indexOf_in (Some c) xs = -1"
  by (simp add: indexOf_in_def indexOf_loop_notin)

lemma indexOf_in_found:
  assumes "mkey c \<in> set (map mkey xs)"
  shows "0 \<le> indexOf_in (Some c) xs" and "indexOf_in (Some c) xs < int (length xs)"
    and "mkey (xs ! nat (indexOf_in (Some c) xs)) = mkey c"
    and "map mkey (js_splice xs (indexOf_in (Some c) xs) 1 []) = remove1 (mkey c) (map mkey xs)"
proof -
  note L = indexOf_loop_in [OF assms, of 0, simplified]
  show a: "0 \<le> indexOf_in (Some c) xs" using L by (simp add: indexOf_in_def)
  show b: "indexOf_in (Some c) xs < int (length xs)" using L by (simp add: indexOf_in_def)
  show "mkey (xs ! nat (indexOf_in (Some c) xs)) = mkey c" using L by (simp add: indexOf_in_def)
  show "map mkey (js_splice xs (indexOf_in (Some c) xs) 1 []) = remove1 (mkey c) (map mkey xs)"
    using L js_splice_remove_at [OF a b] by (simp add: indexOf_in_def)
qed

lemma indexOf_in_eq_minus1: "indexOf_in (Some c) xs = -1 \<longleftrightarrow> mkey c \<notin> set (map mkey xs)"
  using indexOf_in_found(1) [of c xs] indexOf_in_notin [of c xs] by fastforce

lemma indexOf_in_ge0: "0 \<le> indexOf_in (Some c) xs \<longleftrightarrow> mkey c \<in> set (map mkey xs)"
  using indexOf_in_found(1) [of c xs] indexOf_in_notin [of c xs] by fastforce

lemma matches_Some [simp]: "matches (Some a) x = (case x of None \<Rightarrow> False | Some b \<Rightarrow> mkey a = mkey b)"
  by (cases x) (simp_all add: input_matches_def)

lemma matches_None [simp]: "matches None x = False"
  by simp

lemma fireEvent_fields [simp]:
  "editors (fireEvent g ev) = editors g" "mru (fireEvent g ev) = mru g"
  "preview (fireEvent g ev) = preview g" "active (fireEvent g ev) = active g"
  "gid (fireEvent g ev) = gid g" "label (fireEvent g ev) = label g"
  by (simp_all add: fireEvent_def)

lemma inv_core_iff:
  "inv_core g \<longleftrightarrow>
     distinct (map mkey (editors g))
     \<and> mset (map mkey (mru g)) = mset (map mkey (editors g))
     \<and> (\<forall>p. preview g = Some p \<longrightarrow> mkey p \<in> set (map mkey (editors g)))"
  by (simp add: inv_core_def split: option.splits)

lemma inv_active_iff:
  "inv_active g \<longleftrightarrow> (\<forall>a. active g = Some a \<longrightarrow> mru g \<noteq> [] \<and> mkey (hd (mru g)) = mkey a)"
  by (simp add: inv_active_def split: option.splits)

lemma inv_core_fireEvent [simp]: "inv_core (fireEvent g ev) = inv_core g"
  by (simp add: inv_core_iff)

lemma inv_active_fireEvent [simp]: "inv_active (fireEvent g ev) = inv_active g"
  by (simp add: inv_active_iff)

lemma splice_add:
  "splice_editor g i False (Some e) = g\<lparr>editors := js_splice (editors g) i 0 [e], mru := mru g @ [e]\<rparr>"
  by (simp add: splice_editor_def Let_def)

lemma splice_remove:
  "splice_editor g i True None =
     g\<lparr>editors := js_splice (editors g) i 1 [],
       mru := js_splice (mru g) (indexOf_in (js_get (editors g) i) (mru g)) 1 []\<rparr>"
  by (simp add: splice_editor_def Let_def)

lemma core_mru_keys: "inv_core g \<Longrightarrow> set (map mkey (mru g)) = set (map mkey (editors g))"
  unfolding inv_core_iff by (metis set_mset_mset)

lemma core_mru_distinct: "inv_core g \<Longrightarrow> distinct (map mkey (mru g))"
  unfolding inv_core_iff by (metis mset_eq_imp_distinct_iff)

lemma indexOf_eq_minus1: "indexOf g (Some c) = -1 \<longleftrightarrow> mkey c \<notin> set (map mkey (editors g))"
  by (simp add: indexOf_def indexOf_in_eq_minus1)

lemma inv_core_add:
  assumes "inv_core g" and "mkey e \<notin> set (map mkey (editors g))"
  shows "inv_core (splice_editor g i False (Some e))"
proof -
  have m: "mset (map mkey (js_splice (editors g) i 0 [e])) = mset (map mkey (editors g)) + {#mkey e#}"
    by (simp add: map_js_splice mset_js_splice_insert)
  have d: "distinct (map mkey (js_splice (editors g) i 0 [e]))"
  proof -
    have "distinct (mkey e # map mkey (editors g))" using assms by (simp add: inv_core_iff)
    moreover have "mset (mkey e # map mkey (editors g)) = mset (map mkey (js_splice (editors g) i 0 [e]))"
      using m by simp
    ultimately show ?thesis by (metis mset_eq_imp_distinct_iff)
  qed
  have s: "set (map mkey (js_splice (editors g) i 0 [e])) = insert (mkey e) (set (map mkey (editors g)))"
    using m by (metis set_mset_mset set_mset_add_mset_insert add_mset_add_single)
  show ?thesis
    using assms d m s by (auto simp: inv_core_iff splice_add)
qed

lemma inv_active_add:
  assumes "inv_active g"
  shows "inv_active (splice_editor g i False (Some e))"
  using assms by (auto simp: inv_active_iff splice_add)

lemma add_fields [simp]:
  "preview (splice_editor g i False (Some e)) = preview g"
  "active (splice_editor g i False (Some e)) = active g"
  by (simp_all add: splice_add)

lemma add_keys:
  "set (map mkey (editors (splice_editor g i False (Some e)))) = insert (mkey e) (set (map mkey (editors g)))"
proof -
  have "mset (map mkey (js_splice (editors g) i 0 [e])) = mset (map mkey (editors g)) + {#mkey e#}"
    by (simp add: map_js_splice mset_js_splice_insert)
  then have "set (map mkey (js_splice (editors g) i 0 [e])) = insert (mkey e) (set (map mkey (editors g)))"
    by (metis set_mset_mset set_mset_add_mset_insert add_mset_add_single)
  then show ?thesis by (simp add: splice_add)
qed

lemma setActive_unfold:
  "setActive g (Some e) =
     (if mkey e \<in> set (map mkey (editors g)) \<and> \<not> matches (active g) (Some e)
      then fireEvent (g\<lparr>active := Some e,
                         mru := e # js_splice (mru g) (indexOf_in (Some e) (mru g)) 1 []\<rparr>)
             (EditorActivated e)
      else g)"
  by (auto simp: setActive_def setMostRecentlyUsed_def Let_def indexOf_def indexOf_in_eq_minus1)

lemma setActive_fields [simp]:
  "editors (setActive g x) = editors g" "preview (setActive g x) = preview g"
  "gid (setActive g x) = gid g" "label (setActive g x) = label g"
  by (cases x, simp add: setActive_def, simp add: setActive_unfold)+

lemma inv_core_setActive:
  assumes "inv_core g"
  shows "inv_core (setActive g x)"
proof (cases x)
  case None
  then show ?thesis using assms by (simp add: setActive_def)
next
  case (Some e)
  show ?thesis
  proof (cases "mkey e \<in> set (map mkey (editors g)) \<and> \<not> matches (active g) (Some e)")
    case False
    then have "setActive g (Some e) = g" by (auto simp: setActive_unfold)
    then show ?thesis using assms Some by simp
  next
    case True
    then have "mkey e \<in> set (map mkey (mru g))" using core_mru_keys [OF assms] by simp
    then have "map mkey (js_splice (mru g) (indexOf_in (Some e) (mru g)) 1 []) = remove1 (mkey e) (map mkey (mru g))"
      by (rule indexOf_in_found(4))
    moreover have "mset (mkey e # remove1 (mkey e) (map mkey (mru g))) = mset (map mkey (mru g))"
      using \<open>mkey e \<in> set (map mkey (mru g))\<close> by simp
    ultimately show ?thesis using assms Some True
      by (simp add: setActive_unfold inv_core_iff)
  qed
qed

lemma inv_active_setActive_new:
  assumes "indexOf g (Some e) \<noteq> -1" and "\<not> matches (active g) (Some e)"
  shows "inv_active (setActive g (Some e))" and "active (setActive g (Some e)) = Some e"
  using assms by (simp_all add: setActive_unfold inv_active_iff indexOf_eq_minus1)

lemma inv_active_setActive:
  assumes "inv_active g"
  shows "inv_active (setActive g x)"
proof (cases x)
  case None
  then show ?thesis using assms by (simp add: setActive_def)
next
  case (Some e)
  then show ?thesis using assms by (simp add: setActive_unfold inv_active_iff)
qed

lemma closeEditor_None [simp]: "closeEditor g None b = g"
  by (simp add: closeEditor_def)

lemma closeEditor_notfound:
  "mkey e \<notin> set (map mkey (editors g)) \<Longrightarrow> closeEditor g (Some e) b = g"
  by (simp add: closeEditor_def indexOf_def indexOf_in_notin)

lemma closeEditor_found:
  assumes core: "inv_core g" and found: "mkey e \<in> set (map mkey (editors g))"
    and g1: "g1 = (if b \<and> matches (active g) (Some e)
                   then (if length (mru g) > 1 then setActive g (js_get (mru g) 1)
                         else g\<lparr>active := None\<rparr>)
                   else g)"
  shows "map mkey (editors (closeEditor g (Some e) b)) = remove1 (mkey e) (map mkey (editors g))"
    and "map mkey (mru (closeEditor g (Some e) b)) = remove1 (mkey e) (map mkey (mru g1))"
    and "preview (closeEditor g (Some e) b) = (if matches (preview g) (Some e) then None else preview g)"
    and "active (closeEditor g (Some e) b) = active g1"
    and "inv_core g1"
proof -
  let ?i = "indexOf_in (Some e) (editors g)"
  have ed1: "editors g1 = editors g" and pv1: "preview g1 = preview g"
    by (simp_all add: g1)
  show core1: "inv_core g1"
    using core by (simp add: g1 inv_core_setActive) (simp add: inv_core_iff)
  have i0: "0 \<le> ?i" and i1: "?i < int (length (editors g))"
    and ik: "mkey (editors g ! nat ?i) = mkey e"
    and er: "map mkey (js_splice (editors g) ?i 1 []) = remove1 (mkey e) (map mkey (editors g))"
    using indexOf_in_found [OF found] by simp_all
  have get: "js_get (editors g) ?i = Some (editors g ! nat ?i)"
    using i0 i1 by (rule js_get_Some)
  have inm: "mkey (editors g ! nat ?i) \<in> set (map mkey (mru g1))"
    using core_mru_keys [OF core1] ed1 found ik by simp
  have mr: "map mkey (js_splice (mru g1) (indexOf_in (Some (editors g ! nat ?i)) (mru g1)) 1 [])
              = remove1 (mkey e) (map mkey (mru g1))"
    using indexOf_in_found(4) [OF inm] ik by simp
  have neq: "?i \<noteq> -1" using i0 by simp
  have unf: "closeEditor g (Some e) b =
        fireEvent (splice_editor (if matches (preview g1) (Some e) then g1\<lparr>preview := None\<rparr> else g1) ?i True None)
          (EditorClosed e (\<not> matches (preview g1) (Some e))
             (editors (splice_editor (if matches (preview g1) (Some e) then g1\<lparr>preview := None\<rparr> else g1) ?i True None)))"
    unfolding closeEditor_def using neq by (simp add: Let_def indexOf_def g1 del: matches_Some)
  show "map mkey (editors (closeEditor g (Some e) b)) = remove1 (mkey e) (map mkey (editors g))"
    using er by (simp add: unf splice_remove ed1 del: matches_Some)
  show "map mkey (mru (closeEditor g (Some e) b)) = remove1 (mkey e) (map mkey (mru g1))"
    using mr get by (simp add: unf splice_remove ed1 del: matches_Some)
  show "preview (closeEditor g (Some e) b) = (if matches (preview g) (Some e) then None else preview g)"
    by (simp add: unf splice_remove pv1 del: matches_Some)
  show "active (closeEditor g (Some e) b) = active g1"
    by (simp add: unf splice_remove del: matches_Some)
qed

lemma closeEditor_frame [simp]:
  "gid (closeEditor g x b) = gid g" "label (closeEditor g x b) = label g"
  by (cases x; simp add: closeEditor_def Let_def splice_remove del: matches_Some)+

lemma inv_core_closeEditor:
  assumes core: "inv_core g"
  shows "inv_core (closeEditor g x b)"
proof (cases x)
  case None
  then show ?thesis using core by simp
next
  case (Some e)
  show ?thesis
  proof (cases "mkey e \<in> set (map mkey (editors g))")
    case False
    then show ?thesis using core Some by (simp add: closeEditor_notfound)
  next
    case True
    define g1 where "g1 = (if b \<and> matches (active g) (Some e)
                   then (if length (mru g) > 1 then setActive g (js_get (mru g) 1)
                         else g\<lparr>active := None\<rparr>)
                   else g)"
    note F = closeEditor_found [OF core True g1_def]
    have ed1: "editors g1 = editors g" by (simp add: g1_def)
    have d: "distinct (map mkey (editors g))" using core by (simp add: inv_core_iff)
    have m1: "mset (map mkey (mru g1)) = mset (map mkey (editors g))"
      using F(5) ed1 by (simp add: inv_core_iff)
    have "mset (remove1 (mkey e) (map mkey (mru g1))) = mset (remove1 (mkey e) (map mkey (editors g)))"
      using m1 by (metis mset_remove1)
    moreover have "\<And>p. preview g = Some p \<Longrightarrow> mkey p \<noteq> mkey e \<Longrightarrow>
        mkey p \<in> set (remove1 (mkey e) (map mkey (editors g)))"
      using core d by (simp add: inv_core_iff)
    ultimately show ?thesis
      unfolding Some inv_core_iff F(1) F(2) F(3) using d by (auto split: option.splits)
  qed
qed

lemma inv_active_K:
  "inv_active g \<longleftrightarrow>
     (\<forall>a. active g = Some a \<longrightarrow> map mkey (mru g) \<noteq> [] \<and> hd (map mkey (mru g)) = mkey a)"
  by (auto simp: inv_active_iff hd_map)

lemma inv_active_closeEditor_gen:
  assumes core: "inv_core g" and found: "mkey e \<in> set (map mkey (editors g))"
    and g1: "g1 = (if b \<and> matches (active g) (Some e)
                   then (if length (mru g) > 1 then setActive g (js_get (mru g) 1)
                         else g\<lparr>active := None\<rparr>)
                   else g)"
    and act1: "inv_active g1" and ne: "\<And>a. active g1 = Some a \<Longrightarrow> mkey a \<noteq> mkey e"
  shows "inv_active (closeEditor g (Some e) b)"
proof -
  note F = closeEditor_found [OF core found g1]
  show ?thesis
    unfolding inv_active_K F(2) F(4)
  proof (intro allI impI)
    fix a assume a: "active g1 = Some a"
    then have h: "map mkey (mru g1) \<noteq> []" "hd (map mkey (mru g1)) = mkey a"
      using act1 by (simp_all add: inv_active_K)
    then obtain ks where ks: "map mkey (mru g1) = mkey a # ks"
      by (cases "map mkey (mru g1)") auto
    show "remove1 (mkey e) (map mkey (mru g1)) \<noteq> [] \<and> hd (remove1 (mkey e) (map mkey (mru g1))) = mkey a"
      using ne [OF a] by (simp add: ks)
  qed
qed

lemma inv_active_closeEditor_keep:
  assumes core: "inv_core g" and act: "inv_active g" and nm: "\<not> matches (active g) x"
  shows "inv_active (closeEditor g x b)"
proof (cases x)
  case None
  then show ?thesis using act by simp
next
  case (Some e)
  show ?thesis
  proof (cases "mkey e \<in> set (map mkey (editors g))")
    case False
    then show ?thesis using act Some by (simp add: closeEditor_notfound)
  next
    case True
    have "inv_active (closeEditor g (Some e) b)"
    proof (rule inv_active_closeEditor_gen [OF core True])
      show "g = (if b \<and> matches (active g) (Some e)
                   then (if length (mru g) > 1 then setActive g (js_get (mru g) 1)
                         else g\<lparr>active := None\<rparr>)
                   else g)" using nm Some by simp
      show "inv_active g" by (rule act)
      show "\<And>a. active g = Some a \<Longrightarrow> mkey a \<noteq> mkey e" using nm Some by simp
    qed
    then show ?thesis using Some by simp
  qed
qed

lemma inv_active_closeEditor:
  assumes core: "inv_core g" and act: "inv_active g"
  shows "inv_active (closeEditor g x True)"
proof (cases "matches (active g) x")
  case False
  then show ?thesis by (rule inv_active_closeEditor_keep [OF core act])
next
  case True
  then obtain a e where a: "active g = Some a" and x: "x = Some e" and k: "mkey a = mkey e"
    by (cases "active g"; cases x) auto
  have hd: "mru g \<noteq> []" "mkey (hd (mru g)) = mkey a" using act a by (simp_all add: inv_active_iff)
  have found: "mkey e \<in> set (map mkey (editors g))"
    using core_mru_keys [OF core] hd k by (metis hd_in_set image_eqI list.set_map)
  define g1 where "g1 = (if True \<and> matches (active g) (Some e)
                   then (if length (mru g) > 1 then setActive g (js_get (mru g) 1)
                         else g\<lparr>active := None\<rparr>)
                   else g)"
  have "inv_active g1 \<and> (\<forall>a'. active g1 = Some a' \<longrightarrow> mkey a' \<noteq> mkey e)"
  proof (cases "length (mru g) > 1")
    case False
    then show ?thesis using a k by (simp add: g1_def inv_active_iff)
  next
    case True
    then obtain m0 m1 ms where ms: "mru g = m0 # m1 # ms"
      by (cases "mru g"; cases "tl (mru g)") auto
    have get: "js_get (mru g) 1 = Some m1" by (simp add: ms js_get_def)
    have d: "distinct (map mkey (mru g))" by (rule core_mru_distinct [OF core])
    have k0: "mkey m0 = mkey e" using hd k ms by simp
    have k1: "mkey m1 \<noteq> mkey e" using d ms k0 by auto
    have in1: "indexOf g (Some m1) \<noteq> -1"
      using core_mru_keys [OF core] ms by (auto simp: indexOf_eq_minus1)
    have nm: "\<not> matches (active g) (Some m1)" using a k k1 by simp
    have g1: "g1 = setActive g (Some m1)" using a k True get by (simp add: g1_def)
    show ?thesis using inv_active_setActive_new [OF in1 nm] k1 by (simp add: g1)
  qed
  then have "inv_active (closeEditor g (Some e) True)"
    using inv_active_closeEditor_gen [OF core found g1_def] by blast
  then show ?thesis by (simp add: x)
qed

lemma inv_core_moveEditor:
  assumes "inv_core g"
  shows "inv_core (moveEditor g e i)"
proof (cases "mkey e \<in> set (map mkey (editors g))")
  case False
  then show ?thesis using assms by (simp add: moveEditor_def indexOf_def indexOf_in_notin)
next
  case True
  let ?j = "indexOf_in (Some e) (editors g)"
  have r: "map mkey (js_splice (editors g) ?j 1 []) = remove1 (mkey e) (map mkey (editors g))"
    by (rule indexOf_in_found(4) [OF True])
  have "mset (map mkey (js_splice (js_splice (editors g) ?j 1 []) i 0 [e]))
          = mset (remove1 (mkey e) (map mkey (editors g))) + {#mkey e#}"
    using r by (simp add: map_js_splice mset_js_splice_insert)
  also have "\<dots> = mset (map mkey (editors g))" using True by simp
  finally have m: "mset (map mkey (js_splice (js_splice (editors g) ?j 1 []) i 0 [e]))
          = mset (map mkey (editors g))" .
  then have "distinct (map mkey (js_splice (js_splice (editors g) ?j 1 []) i 0 [e]))
          = distinct (map mkey (editors g))"
    by (rule mset_eq_imp_distinct_iff)
  moreover have "set (map mkey (js_splice (js_splice (editors g) ?j 1 []) i 0 [e]))
          = set (map mkey (editors g))"
    using m by (rule mset_eq_setD)
  ultimately show ?thesis
    using assms m indexOf_in_found(1) [OF True]
    by (simp add: moveEditor_def indexOf_def Let_def inv_core_iff)
qed

lemma moveEditor_fields [simp]:
  "mru (moveEditor g e i) = mru g" "active (moveEditor g e i) = active g"
  "preview (moveEditor g e i) = preview g"
  by (simp_all add: moveEditor_def Let_def)

lemma inv_active_moveEditor: "inv_active (moveEditor g e i) = inv_active g"
  by (simp add: inv_active_iff)

lemma pin_fields [simp]:
  "editors (pin g e) = editors g" "mru (pin g e) = mru g" "active (pin g e) = active g"
  by (simp_all add: pin_def)

lemma preview_pin:
  "preview (pin g e) = (if matches (preview g) (Some e) then None else preview g)"
  by (simp add: pin_def isPreview_def)

lemma inv_core_pin: "inv_core g \<Longrightarrow> inv_core (pin g e)"
  by (simp add: inv_core_iff preview_pin)

lemma inv_active_pin: "inv_active (pin g e) = inv_active g"
  by (simp add: inv_active_iff)

lemma inv_core_unpin:
  assumes "inv_core g"
  shows "inv_core (unpin g e)"
proof (cases "isPinned g (Some e)")
  case False
  then show ?thesis using assms by (simp add: unpin_def)
next
  case True
  then have "mkey e \<in> set (map mkey (editors g))"
    by (auto simp: isPinned_def Let_def indexOf_eq_minus1 split: if_splits)
  then have "inv_core (fireEvent (g\<lparr>preview := Some e\<rparr>) (EditorUnpinned e))"
    using assms by (simp add: inv_core_iff)
  then show ?thesis using True by (simp add: unpin_def Let_def inv_core_closeEditor)
qed

lemma inv_active_unpin:
  assumes "inv_core g" and "inv_active g"
  shows "inv_active (unpin g e)"
proof (cases "isPinned g (Some e)")
  case False
  then show ?thesis using assms by (simp add: unpin_def)
next
  case True
  then have "mkey e \<in> set (map mkey (editors g))"
    by (auto simp: isPinned_def Let_def indexOf_eq_minus1 split: if_splits)
  then have c: "inv_core (fireEvent (g\<lparr>preview := Some e\<rparr>) (EditorUnpinned e))"
    using assms by (simp add: inv_core_iff)
  have a: "inv_active (fireEvent (g\<lparr>preview := Some e\<rparr>) (EditorUnpinned e))"
    using assms by (simp add: inv_active_iff)
  show ?thesis using True inv_active_closeEditor [OF c a] by (simp add: unpin_def Let_def)
qed

lemma inv_closeEach:
  "inv_core g \<Longrightarrow> inv_core (closeEach es g)"
  "inv_core g \<Longrightarrow> inv_active g \<Longrightarrow> inv_active (closeEach es g)"
  by (induction es arbitrary: g)
     (simp_all add: closeEach_def inv_core_closeEditor inv_active_closeEditor)

lemma inv_closeLeft:
  "inv_core g \<Longrightarrow> inv_core (closeLeft g n)"
  "inv_core g \<Longrightarrow> inv_active g \<Longrightarrow> inv_active (closeLeft g n)"
  by (induction n arbitrary: g) (simp_all add: inv_core_closeEditor inv_active_closeEditor)

lemma inv_closeRight:
  "inv_core g \<Longrightarrow> inv_core (closeRight g i n)"
  "inv_core g \<Longrightarrow> inv_active g \<Longrightarrow> inv_active (closeRight g i n)"
  by (induction n arbitrary: g) (simp_all add: inv_core_closeEditor inv_active_closeEditor)

lemma inv_closeEditors:
  "inv_core g \<Longrightarrow> inv_core (closeEditors g e d)"
  "inv_core g \<Longrightarrow> inv_active g \<Longrightarrow> inv_active (closeEditors g e d)"
  by (auto simp: closeEditors_def Let_def inv_closeEach inv_closeLeft inv_closeRight
           split: option.splits Direction.splits)

lemma inv_closeAllEditors:
  "inv_core g \<Longrightarrow> inv_core (closeAllEditors g)"
  "inv_core g \<Longrightarrow> inv_active g \<Longrightarrow> inv_active (closeAllEditors g)"
  by (simp_all add: closeAllEditors_def Let_def inv_closeEach inv_core_closeEditor
        inv_active_closeEditor)

lemma openEditor_existing:
  assumes "indexOf g (Some e) \<noteq> -1"
  shows "openEditor config g e options =
     (let g1 = (if makePinned options then pin g e else g);
          g2 = (if makeActive g options then setActive g1 (Some e) else g1)
      in case (case options of None \<Rightarrow> None | Some opt \<Rightarrow> o_index opt) of
           Some i \<Rightarrow> moveEditor g2 e i
         | None \<Rightarrow> g2)"
  using assms unfolding openEditor_def makePinned_def makeActive_def Let_def
  by (simp del: matches_Some)

lemma openEditor_new_pinned:
  assumes "indexOf g (Some e) = -1" and "makePinned options"
  shows "openEditor config g e options =
     (let g3 = fireEvent (splice_editor g (targetIndex config g options) False (Some e))
                 (EditorOpened e)
      in if makeActive g options then setActive g3 (Some e) else g3)"
  using assms unfolding openEditor_def makePinned_def makeActive_def targetIndex_def Let_def
  by (simp del: matches_Some)

lemma openEditor_new_first_preview:
  assumes "indexOf g (Some e) = -1" and "\<not> makePinned options" and "preview g = None"
  shows "openEditor config g e options =
     (let g3 = fireEvent ((splice_editor g (targetIndex config g options) False (Some e))
                            \<lparr>preview := Some e\<rparr>) (EditorOpened e)
      in if makeActive g options then setActive g3 (Some e) else g3)"
  using assms unfolding openEditor_def makePinned_def makeActive_def targetIndex_def Let_def
  by (simp del: matches_Some)

lemma openEditor_new_replace_preview:
  assumes "indexOf g (Some e) = -1" and "\<not> makePinned options" and "preview g = Some p"
  shows "openEditor config g e options =
     (let t = targetIndex config g options;
          t' = (if t \<ge> indexOf g (Some p) then t - 1 else t);
          g3 = fireEvent ((splice_editor (closeEditor g (Some p) (\<not> makeActive g options))
                             t' False (Some e)) \<lparr>preview := Some e\<rparr>) (EditorOpened e)
      in if makeActive g options then setActive g3 (Some e) else g3)"
  using assms unfolding openEditor_def makePinned_def makeActive_def targetIndex_def Let_def
  by (simp del: matches_Some)

lemma closeEditor_keys_subset:
  assumes "inv_core g"
  shows "set (map mkey (editors (closeEditor g x b))) \<subseteq> set (map mkey (editors g))"
proof (cases x)
  case None
  then show ?thesis by simp
next
  case (Some e)
  show ?thesis
  proof (cases "mkey e \<in> set (map mkey (editors g))")
    case False
    then show ?thesis using Some by (simp add: closeEditor_notfound)
  next
    case True
    have "set (remove1 (mkey e) (map mkey (editors g))) \<subseteq> set (map mkey (editors g))"
      by (rule set_remove1_subset)
    then show ?thesis
      using closeEditor_found(1) [OF assms True refl, of b] Some by simp
  qed
qed

lemma add_key_in: "mkey e \<in> mkey ` set (editors (splice_editor g i False (Some e)))"
  using add_keys [of g i e] by simp

lemma inv_core_set_preview:
  "inv_core g \<Longrightarrow> mkey e \<in> set (map mkey (editors g)) \<Longrightarrow> inv_core (g\<lparr>preview := Some e\<rparr>)"
  by (simp add: inv_core_iff)

lemma inv_active_set_preview [simp]: "inv_active (g\<lparr>preview := x\<rparr>) = inv_active g"
  by (simp add: inv_active_iff)

lemma inv_core_openEditor:
  assumes core: "inv_core g"
  shows "inv_core (openEditor config g e options)"
proof (cases "indexOf g (Some e) = -1")
  case False
  show ?thesis
    unfolding openEditor_existing [OF False] Let_def
    using core
    by (auto simp: inv_core_pin inv_core_setActive inv_core_moveEditor split: option.splits)
next
  case True
  then have new: "mkey e \<notin> set (map mkey (editors g))" by (simp add: indexOf_eq_minus1)
  show ?thesis
  proof (cases "makePinned options")
    case True
    show ?thesis
      unfolding openEditor_new_pinned [OF \<open>indexOf g (Some e) = -1\<close> True] Let_def
      using inv_core_add [OF core new] by (simp add: inv_core_setActive)
  next
    case False
    note np = this
    show ?thesis
    proof (cases "preview g")
      case None
      have "inv_core ((splice_editor g (targetIndex config g options) False (Some e))\<lparr>preview := Some e\<rparr>)"
        by (rule inv_core_set_preview [OF inv_core_add [OF core new]]) (simp add: add_key_in)
      then show ?thesis
        unfolding openEditor_new_first_preview [OF \<open>indexOf g (Some e) = -1\<close> np None] Let_def
        by (simp add: inv_core_setActive)
    next
      case (Some p)
      have "inv_core ((splice_editor (closeEditor g (Some p) b) i False (Some e))\<lparr>preview := Some e\<rparr>)"
        for i b
      proof -
        have c: "inv_core (closeEditor g (Some p) b)" by (rule inv_core_closeEditor [OF core])
        have n: "mkey e \<notin> set (map mkey (editors (closeEditor g (Some p) b)))"
          using closeEditor_keys_subset [OF core, of "Some p" b] new by blast
        show ?thesis
          by (rule inv_core_set_preview [OF inv_core_add [OF c n]]) (simp add: add_key_in)
      qed
      then show ?thesis
        unfolding openEditor_new_replace_preview [OF \<open>indexOf g (Some e) = -1\<close> np Some] Let_def
        by (simp add: inv_core_setActive)
    qed
  qed
qed

lemma core_active_known:
  assumes "inv_core g" and "inv_active g" and "active g = Some a"
  shows "mkey a \<in> set (map mkey (editors g))"
proof -
  have "mru g \<noteq> []" "mkey (hd (mru g)) = mkey a" using assms by (simp_all add: inv_active_iff)
  then have "mkey a \<in> set (map mkey (mru g))" by (metis hd_in_set image_eqI list.set_map)
  then show ?thesis using core_mru_keys [OF assms(1)] by simp
qed

lemma inv_active_openEditor:
  assumes core: "inv_core g" and act: "inv_active g"
  shows "inv_active (openEditor config g e options)"
proof (cases "indexOf g (Some e) = -1")
  case False
  show ?thesis
    unfolding openEditor_existing [OF False] Let_def
    using act
    by (auto simp: inv_active_pin inv_active_setActive inv_active_moveEditor split: option.splits)
next
  case True
  note nf = this
  then have new: "mkey e \<notin> set (map mkey (editors g))" by (simp add: indexOf_eq_minus1)
  have nm: "\<not> matches (active g) (Some e)"
    using core_active_known [OF core act] new by (cases "active g") auto
  have fin: "inv_active (if makeActive g options then setActive (fireEvent h ev) (Some e) else fireEvent h ev)"
    if h: "active h = active g" "mkey e \<in> set (map mkey (editors h))"
      and ha: "\<not> makeActive g options \<Longrightarrow> inv_active h" for h ev
  proof (cases "makeActive g options")
    case False
    then show ?thesis using ha by simp
  next
    case True
    have "indexOf (fireEvent h ev) (Some e) \<noteq> -1" using h by (simp add: indexOf_eq_minus1)
    moreover have "\<not> matches (active (fireEvent h ev)) (Some e)" using nm h by simp
    ultimately show ?thesis using True by (simp add: inv_active_setActive_new(1))
  qed
  show ?thesis
  proof (cases "makePinned options")
    case True
    show ?thesis
      unfolding openEditor_new_pinned [OF nf True] Let_def
      by (rule fin) (simp_all add: add_key_in inv_active_add act)
  next
    case False
    note np = this
    show ?thesis
    proof (cases "preview g")
      case None
      show ?thesis
        unfolding openEditor_new_first_preview [OF nf np None] Let_def
        by (rule fin) (simp_all add: add_key_in inv_active_add act)
    next
      case (Some p)
      let ?c = "closeEditor g (Some p) (\<not> makeActive g options)"
      have same: "active ?c = active g" if "makeActive g options"
      proof (cases "mkey p \<in> set (map mkey (editors g))")
        case False
        then show ?thesis by (simp add: closeEditor_notfound)
      next
        case True
        show ?thesis using closeEditor_found(4) [OF core True refl, of "\<not> makeActive g options"] that
          by simp
      qed
      have keep: "inv_active ?c \<and> active ?c = active g" if na: "\<not> makeActive g options"
      proof -
        have npm: "\<not> matches (active g) (Some p)"
          using na np Some unfolding makeActive_def
          by (cases "active g") (auto simp: input_matches_def)
        have "inv_active ?c" by (rule inv_active_closeEditor_keep [OF core act npm])
        moreover have "active ?c = active g"
        proof (cases "mkey p \<in> set (map mkey (editors g))")
          case False
          then show ?thesis by (simp add: closeEditor_notfound)
        next
          case True
          show ?thesis using closeEditor_found(4) [OF core True refl, of "\<not> makeActive g options"] npm
            by simp
        qed
        ultimately show ?thesis by simp
      qed
      show ?thesis
        unfolding openEditor_new_replace_preview [OF nf np Some] Let_def
      proof (rule fin)
        show "active ((splice_editor ?c (if indexOf g (Some p) \<le> targetIndex config g options
                 then targetIndex config g options - 1 else targetIndex config g options) False (Some e))
                 \<lparr>preview := Some e\<rparr>) = active g"
          using same keep by (cases "makeActive g options") simp_all
        show "mkey e \<in> set (map mkey (editors ((splice_editor ?c (if indexOf g (Some p) \<le> targetIndex config g options
                 then targetIndex config g options - 1 else targetIndex config g options) False (Some e))
                 \<lparr>preview := Some e\<rparr>)))"
          by (simp add: add_key_in)
        show "inv_active ((splice_editor ?c (if indexOf g (Some p) \<le> targetIndex config g options
                 then targetIndex config g options - 1 else targetIndex config g options) False (Some e))
                 \<lparr>preview := Some e\<rparr>)" if "\<not> makeActive g options"
          using keep [OF that] by (simp add: inv_active_add)
      qed
    qed
  qed
qed

lemma inv_new: "inv_core (newEditorGroup i l)" "inv_active (newEditorGroup i l)"
  by (simp_all add: inv_core_def inv_active_def newEditorGroup_def)

lemma inv_core_apply_op: "inv_core g \<Longrightarrow> inv_core (apply_op g op)"
  by (cases op)
     (simp_all add: inv_core_openEditor inv_core_closeEditor inv_closeEditors inv_closeAllEditors
        inv_core_moveEditor inv_core_setActive inv_core_pin inv_core_unpin)

lemma inv_active_apply_op:
  "inv_core g \<Longrightarrow> inv_active g \<Longrightarrow> opens_next op \<Longrightarrow> inv_active (apply_op g op)"
  by (cases op)
     (simp_all add: inv_active_openEditor inv_active_closeEditor inv_closeEditors
        inv_closeAllEditors inv_active_moveEditor inv_active_setActive inv_active_pin
        inv_active_unpin)

lemma inv_core_run_ops: "inv_core g \<Longrightarrow> inv_core (run_ops g ops)"
  unfolding run_ops_def by (induction ops arbitrary: g) (simp_all add: inv_core_apply_op)

lemma inv_active_run_ops:
  "inv_core g \<Longrightarrow> inv_active g \<Longrightarrow> list_all opens_next ops \<Longrightarrow> inv_active (run_ops g ops)"
  unfolding run_ops_def
  by (induction ops arbitrary: g) (simp_all add: inv_core_apply_op inv_active_apply_op)

lemma distinct_filter_key_le1:
  "distinct (map f xs) \<Longrightarrow> length (filter (\<lambda>x. f x = k) xs) \<le> Suc 0"
  by (induction xs) (auto simp: filter_empty_conv image_iff)

lemma core_same_length: "inv_core g \<Longrightarrow> same_length g"
  unfolding inv_core_iff same_length_def by (metis length_map mset_eq_length)

lemma core_mru_permutes: "inv_core g \<Longrightarrow> mru_permutes_editors g"
  by (simp add: inv_core_iff mru_permutes_editors_def)

lemma indexOf_ge0: "0 \<le> indexOf g (Some c) \<longleftrightarrow> mkey c \<in> set (map mkey (editors g))"
  by (simp add: indexOf_def indexOf_in_ge0)

lemma core_preview_present: "inv_core g \<Longrightarrow> null_or_present g (preview g)"
  by (cases "preview g") (auto simp: null_or_present_def inv_core_iff indexOf_ge0)

lemma core_one_preview: "inv_core g \<Longrightarrow> at_most_one_preview g"
proof (cases "preview g")
  case None
  then show ?thesis by (simp add: at_most_one_preview_def isPreview_def)
next
  case (Some p)
  assume "inv_core g"
  then have "distinct (map mkey (editors g))" by (simp add: inv_core_iff)
  then have "length (filter (\<lambda>x. mkey x = mkey p) (editors g)) \<le> Suc 0"
    by (rule distinct_filter_key_le1)
  moreover have "(\<lambda>e. isPreview g (Some e)) = (\<lambda>x. mkey x = mkey p)"
    using Some by (auto simp: isPreview_def fun_eq_iff)
  ultimately show ?thesis by (simp add: at_most_one_preview_def)
qed

lemma core_active_present: "inv_core g \<Longrightarrow> inv_active g \<Longrightarrow> null_or_present g (active g)"
  using core_active_known [of g]
  by (cases "active g") (auto simp: null_or_present_def indexOf_ge0)

section \<open>C1: the invariants of a group\<close>

text \<open>
  C1 as stated: after every sequence of public operations on an empty group, with
  \<open>closeEditor\<close> called with any value of \<open>openNext\<close>, the group has
  \<open>editors.length == mru.length\<close>, \<open>mru\<close> is a permutation of \<open>editors\<close> under
  \<open>matches\<close>, \<open>active\<close> and \<open>preview\<close> are null or in \<open>editors\<close>, and there is at most
  one preview. This fails: \<open>closeEditor(editor, false)\<close> on the active editor removes it
  from \<open>editors\<close> and leaves \<open>active\<close> pointing at it.
\<close>

theorem C1_counterexample:
  "\<not> group_invariants
       (run_ops (newEditorGroup 0 [])
          [OpenEditor RIGHT (EditorInput 1 1 ''a'') None,
           CloseEditor (Some (EditorInput 1 1 ''a'')) False])"
  by code_simp

text \<open>
  C1, amended: after every sequence of public operations on an empty group,
  \<open>editors.length == mru.length\<close>, \<open>mru\<close> is a permutation of \<open>editors\<close> under
  \<open>matches\<close>, \<open>preview\<close> is null or in \<open>editors\<close>, and at most one editor is the preview;
  if moreover every \<open>closeEditor\<close> of the sequence was called with \<open>openNext = true\<close>,
  \<open>active\<close> is null or in \<open>editors\<close>, so that all the invariants hold.
\<close>

theorem C1_group_invariants:
  "same_length (run_ops (newEditorGroup i l) ops)
   \<and> mru_permutes_editors (run_ops (newEditorGroup i l) ops)
   \<and> null_or_present (run_ops (newEditorGroup i l) ops)
        (preview (run_ops (newEditorGroup i l) ops))
   \<and> at_most_one_preview (run_ops (newEditorGroup i l) ops)
   \<and> (list_all opens_next ops \<longrightarrow> group_invariants (run_ops (newEditorGroup i l) ops))"
proof -
  let ?g = "run_ops (newEditorGroup i l) ops"
  have core: "inv_core ?g" by (rule inv_core_run_ops [OF inv_new(1)])
  have "null_or_present ?g (active ?g)" if "list_all opens_next ops"
    using core inv_active_run_ops [OF inv_new that] by (rule core_active_present)
  then show ?thesis
    using core
    by (simp add: group_invariants_def core_same_length core_mru_permutes
          core_preview_present core_one_preview)
qed

theorem C1_group_invariants_witness:
  "list_all opens_next
     [OpenEditor RIGHT (EditorInput 1 1 ''a'') None,
      OpenEditor LEFT (EditorInput 2 2 ''b'') None,
      CloseEditor (Some (EditorInput 2 2 ''b'')) True]
   \<and> group_invariants
       (run_ops (newEditorGroup 0 [])
          [OpenEditor RIGHT (EditorInput 1 1 ''a'') None,
           OpenEditor LEFT (EditorInput 2 2 ''b'') None,
           CloseEditor (Some (EditorInput 2 2 ''b'')) True])"
  using C1_group_invariants [of 0 "[]"
     "[OpenEditor RIGHT (EditorInput 1 1 ''a'') None,
       OpenEditor LEFT (EditorInput 2 2 ''b'') None,
       CloseEditor (Some (EditorInput 2 2 ''b'')) True]"]
  by simp

section \<open>C5: opening a new preview editor replaces the old one\<close>

lemma length_js_splice_insert: "length (js_splice xs i 0 [e]) = Suc (length xs)"
  using splice_start_le [of xs i] by (simp add: js_splice_def Let_def)

lemma set_js_splice_insert: "set (js_splice xs i 0 [e]) = insert e (set xs)"
proof -
  have "set (take n xs) \<union> set (drop n xs) = set xs" for n
    by (metis append_take_drop_id set_append)
  then show ?thesis by (auto simp: js_splice_def Let_def)
qed

lemma openEditor_editors_replace:
  assumes core: "inv_core g" and pv: "preview g = Some p"
    and new: "indexOf g (Some e) = -1" and np: "\<not> makePinned options"
  shows "\<exists>t. editors (openEditor config g e options)
           = js_splice (editors (closeEditor g (Some p) (\<not> makeActive g options))) t 0 [e]"
    and "preview (openEditor config g e options) = Some e"
  unfolding openEditor_new_replace_preview [OF new np pv] Let_def
  by (auto simp: splice_add)

text \<open>
  C5: in a group that has a preview editor (a group as the operations build it: no two
  editors match, \<open>mru\<close> holds the same editors, the preview is one of them), \<open>openEditor\<close>
  with an input that is not yet present and with \<open>pinned\<close> not requested leaves
  \<open>editors.length\<close> unchanged, makes the new input the preview and an element of
  \<open>editors\<close>, and the old preview is in neither \<open>editors\<close> nor \<open>mru\<close> afterwards.
\<close>

theorem C5_preview_replaced:
  assumes core: "inv_core g" and pv: "preview g = Some p"
    and new: "indexOf g (Some e) = -1" and np: "\<not> makePinned options"
  shows "length (editors (openEditor config g e options)) = length (editors g)
         \<and> preview (openEditor config g e options) = Some e
         \<and> indexOf (openEditor config g e options) (Some e) \<ge> 0
         \<and> indexOf (openEditor config g e options) (Some p) = -1
         \<and> indexOf_in (Some p) (mru (openEditor config g e options)) = -1"
proof -
  let ?g' = "openEditor config g e options"
  let ?c = "closeEditor g (Some p) (\<not> makeActive g options)"
  have pin: "mkey p \<in> set (map mkey (editors g))" using core pv by (simp add: inv_core_iff)
  have d: "distinct (map mkey (editors g))" using core by (simp add: inv_core_iff)
  have ne: "mkey e \<noteq> mkey p" using new pin by (auto simp: indexOf_eq_minus1)
  have kc: "map mkey (editors ?c) = remove1 (mkey p) (map mkey (editors g))"
    by (rule closeEditor_found(1) [OF core pin refl])
  obtain t where t: "editors ?g' = js_splice (editors ?c) t 0 [e]"
    using openEditor_editors_replace(1) [OF core pv new np] by blast
  have "length (map mkey (editors ?c)) = length (remove1 (mkey p) (map mkey (editors g)))"
    by (simp only: kc)
  then have "length (editors ?c) = length (editors g) - 1"
    using pin by (simp add: length_remove1)
  moreover have "0 < length (editors g)" using pin by (cases "editors g") auto
  ultimately have lc: "Suc (length (editors ?c)) = length (editors g)" by simp
  have len: "length (editors ?g') = length (editors g)"
    using lc by (simp add: t length_js_splice_insert)
  have "set (map mkey (editors ?g')) = insert (mkey e) (set (map mkey (editors ?c)))"
    by (simp add: t set_js_splice_insert)
  also have "\<dots> = insert (mkey e) (set (remove1 (mkey p) (map mkey (editors g))))"
    by (simp only: kc)
  also have "\<dots> = insert (mkey e) (set (map mkey (editors g)) - {mkey p})"
    using d by (simp only: set_remove1_eq)
  finally have s: "set (map mkey (editors ?g'))
                     = insert (mkey e) (set (map mkey (editors g)) - {mkey p})" .
  have core': "inv_core ?g'" by (rule inv_core_openEditor [OF core])
  have ein: "0 \<le> indexOf ?g' (Some e)" using s by (simp add: indexOf_ge0)
  have pout: "indexOf ?g' (Some p) = -1" using s ne by (simp add: indexOf_eq_minus1)
  have "mkey p \<notin> set (map mkey (mru ?g'))" using core_mru_keys [OF core'] s ne by simp
  then have mout: "indexOf_in (Some p) (mru ?g') = -1" by (rule indexOf_in_notin)
  show ?thesis
    using len openEditor_editors_replace(2) [OF core pv new np] ein pout mout by simp
qed

theorem C5_preview_replaced_witness:
  "inv_core \<lparr>gid = 0, label = [], editors = [EditorInput 1 1 ''a'', EditorInput 2 2 ''b''],
       mru = [EditorInput 1 1 ''a'', EditorInput 2 2 ''b''],
       preview = Some (EditorInput 2 2 ''b''), active = Some (EditorInput 1 1 ''a''), fired = []\<rparr>
   \<and> indexOf \<lparr>gid = 0, label = [], editors = [EditorInput 1 1 ''a'', EditorInput 2 2 ''b''],
       mru = [EditorInput 1 1 ''a'', EditorInput 2 2 ''b''],
       preview = Some (EditorInput 2 2 ''b''), active = Some (EditorInput 1 1 ''a''), fired = []\<rparr>
       (Some (EditorInput 3 3 ''c'')) = -1
   \<and> \<not> makePinned None
   \<and> length (editors (openEditor RIGHT
         \<lparr>gid = 0, label = [], editors = [EditorInput 1 1 ''a'', EditorInput 2 2 ''b''],
           mru = [EditorInput 1 1 ''a'', EditorInput 2 2 ''b''],
           preview = Some (EditorInput 2 2 ''b''), active = Some (EditorInput 1 1 ''a''), fired = []\<rparr>
         (EditorInput 3 3 ''c'') None)) = 2
   \<and> preview (openEditor RIGHT
         \<lparr>gid = 0, label = [], editors = [EditorInput 1 1 ''a'', EditorInput 2 2 ''b''],
           mru = [EditorInput 1 1 ''a'', EditorInput 2 2 ''b''],
           preview = Some (EditorInput 2 2 ''b''), active = Some (EditorInput 1 1 ''a''), fired = []\<rparr>
         (EditorInput 3 3 ''c'') None) = Some (EditorInput 3 3 ''c'')
   \<and> indexOf (openEditor RIGHT
         \<lparr>gid = 0, label = [], editors = [EditorInput 1 1 ''a'', EditorInput 2 2 ''b''],
           mru = [EditorInput 1 1 ''a'', EditorInput 2 2 ''b''],
           preview = Some (EditorInput 2 2 ''b''), active = Some (EditorInput 1 1 ''a''), fired = []\<rparr>
         (EditorInput 3 3 ''c'') None) (Some (EditorInput 2 2 ''b'')) = -1"
proof -
  let ?g = "\<lparr>gid = 0, label = [], editors = [EditorInput 1 1 ''a'', EditorInput 2 2 ''b''],
       mru = [EditorInput 1 1 ''a'', EditorInput 2 2 ''b''],
       preview = Some (EditorInput 2 2 ''b''), active = Some (EditorInput 1 1 ''a''), fired = []\<rparr>"
  have h1: "inv_core ?g" by (simp add: inv_core_def)
  have h2: "preview ?g = Some (EditorInput 2 2 ''b'')" by simp
  have h3: "indexOf ?g (Some (EditorInput 3 3 ''c'')) = -1"
    by (simp add: indexOf_def indexOf_in_def)
  have h4: "\<not> makePinned None" by (simp add: makePinned_def)
  show ?thesis
    using C5_preview_replaced [OF h1 h2 h3 h4, of RIGHT] h1 h3 h4 by simp
qed

section \<open>C10: a dirty editor is never the preview editor\<close>

lemma preview_moveEditor_setActive:
  "preview (case x of Some i \<Rightarrow> moveEditor g e i | None \<Rightarrow> g) = preview g"
  by (cases x) simp_all

lemma editors_keys_moveEditor:
  "set (map mkey (editors (moveEditor g e i))) = set (map mkey (editors g))"
proof (cases "mkey e \<in> set (map mkey (editors g))")
  case False
  then show ?thesis by (simp add: moveEditor_def indexOf_def indexOf_in_notin)
next
  case True
  let ?j = "indexOf_in (Some e) (editors g)"
  have j: "0 \<le> ?j" "?j < int (length (editors g))" "mkey (editors g ! nat ?j) = mkey e"
    using indexOf_in_found [OF True] by simp_all
  have "set (js_splice (editors g) ?j 1 []) \<subseteq> set (editors g)"
    unfolding js_splice_remove_at [OF j(1) j(2)]
    by (auto dest: in_set_takeD in_set_dropD)
  moreover have "set (map mkey (editors g)) \<subseteq> insert (mkey e) (set (map mkey (js_splice (editors g) ?j 1 [])))"
    using indexOf_in_found(4) [OF True] by (metis subsetI in_set_remove1 insertCI)
  ultimately show ?thesis
    using j(1) True
    by (auto simp: moveEditor_def indexOf_def Let_def set_js_splice_insert)
qed

lemma pinned_open_not_preview:
  assumes core: "inv_core g" and pinned: "makePinned options"
  shows "\<not> isPreview (openEditor config g e options) (Some e)"
    and "isPinned (openEditor config g e options) (Some e)"
proof -
  let ?g' = "openEditor config g e options"
  have both: "preview ?g' = (if matches (preview g) (Some e) then None else preview g)
              \<and> mkey e \<in> set (map mkey (editors ?g'))"
  proof (cases "indexOf g (Some e) = -1")
    case True
    then have new: "mkey e \<notin> set (map mkey (editors g))" by (simp add: indexOf_eq_minus1)
    have "\<not> matches (preview g) (Some e)"
      using core new by (cases "preview g") (auto simp: inv_core_iff)
    then have "preview ?g' = (if matches (preview g) (Some e) then None else preview g)"
      unfolding openEditor_new_pinned [OF True pinned] Let_def by simp
    moreover have "mkey e \<in> set (map mkey (editors ?g'))"
      unfolding openEditor_new_pinned [OF True pinned] Let_def by (simp add: add_key_in)
    ultimately show ?thesis by simp
  next
    case False
    then have old: "mkey e \<in> set (map mkey (editors g))" by (simp add: indexOf_eq_minus1)
    have "preview ?g' = (if matches (preview g) (Some e) then None else preview g)"
      unfolding openEditor_existing [OF False] Let_def using pinned
      by (simp add: preview_moveEditor_setActive preview_pin del: matches_Some)
    moreover have "mkey e \<in> set (map mkey (editors ?g'))"
      unfolding openEditor_existing [OF False] Let_def using pinned old
      by (cases "case options of None \<Rightarrow> None | Some opt \<Rightarrow> o_index opt")
         (simp_all add: editors_keys_moveEditor [simplified])
    ultimately show ?thesis by simp
  qed
  note pv = both [THEN conjunct1] and ein = both [THEN conjunct2]
  show np: "\<not> isPreview ?g' (Some e)"
    unfolding isPreview_def pv by (cases "preview g") auto
  show "isPinned ?g' (Some e)"
    using np ein unfolding isPinned_def isPreview_def Let_def
    by (simp add: indexOf_eq_minus1 del: matches_Some)
qed

lemma becomeDirty_not_preview:
  "\<not> isPreview (v_group (onDidEditorBecomeDirty v e)) (Some e)"
  "indexOf (v_group v) (Some e) \<ge> 0 \<Longrightarrow> isPinned (v_group (onDidEditorBecomeDirty v e)) (Some e)"
  by (auto simp: onDidEditorBecomeDirty_def pinEditor_def isPinned_def isPreview_def Let_def
        preview_pin indexOf_def pin_def
      split: option.splits if_splits)

text \<open>
  C10: in the group view, \<open>doOpenEditor\<close> asks for \<open>pinned = true\<close> whenever the editor
  is dirty, whenever an explicit index is given and whenever preview editors are
  disabled; opening a dirty editor (in a group as the operations build it) leaves it
  pinned and not the preview; and when an editor becomes dirty the view pins it at once:
  afterwards it is not the preview, and it is pinned if it is open in the group.
\<close>

theorem C10_dirty_never_preview:
  assumes core: "inv_core (v_group v)"
  shows "(isDirty \<or> \<not> enablePreview v
            \<or> (case options of None \<Rightarrow> False | Some opt \<Rightarrow> eo_index opt \<noteq> None)
          \<longrightarrow> o_pinned (openEditorOptions v isDirty options))
         \<and> \<not> isPreview (v_group (doOpenEditor config v e True options)) (Some e)
         \<and> isPinned (v_group (doOpenEditor config v e True options)) (Some e)
         \<and> \<not> isPreview (v_group (onDidEditorBecomeDirty v e)) (Some e)
         \<and> (indexOf (v_group v) (Some e) \<ge> 0
              \<longrightarrow> isPinned (v_group (onDidEditorBecomeDirty v e)) (Some e))"
proof -
  have p: "makePinned (Some (openEditorOptions v True options))"
    by (simp add: makePinned_def openEditorOptions_def Let_def)
  have "(isDirty \<or> \<not> enablePreview v
            \<or> (case options of None \<Rightarrow> False | Some opt \<Rightarrow> eo_index opt \<noteq> None)
          \<longrightarrow> o_pinned (openEditorOptions v isDirty options))"
    by (auto simp: openEditorOptions_def Let_def split: option.splits)
  moreover note pinned_open_not_preview [OF core p, of config e] becomeDirty_not_preview [of v e]
  ultimately show ?thesis by (simp add: doOpenEditor_def del: matches_Some)
qed

theorem C10_dirty_never_preview_witness:
  "inv_core \<lparr>gid = 0, label = [], editors = [EditorInput 1 1 ''a'', EditorInput 2 2 ''b''],
       mru = [EditorInput 1 1 ''a'', EditorInput 2 2 ''b''],
       preview = Some (EditorInput 2 2 ''b''), active = Some (EditorInput 1 1 ''a''), fired = []\<rparr>
   \<and> o_pinned (openEditorOptions
        \<lparr>v_group = \<lparr>gid = 0, label = [], editors = [EditorInput 1 1 ''a'', EditorInput 2 2 ''b''],
            mru = [EditorInput 1 1 ''a'', EditorInput 2 2 ''b''],
            preview = Some (EditorInput 2 2 ''b''), active = Some (EditorInput 1 1 ''a''),
            fired = []\<rparr>, enablePreview = True\<rparr> True None)
   \<and> \<not> isPreview (v_group (doOpenEditor RIGHT
        \<lparr>v_group = \<lparr>gid = 0, label = [], editors = [EditorInput 1 1 ''a'', EditorInput 2 2 ''b''],
            mru = [EditorInput 1 1 ''a'', EditorInput 2 2 ''b''],
            preview = Some (EditorInput 2 2 ''b''), active = Some (EditorInput 1 1 ''a''),
            fired = []\<rparr>, enablePreview = True\<rparr> (EditorInput 2 2 ''b'') True None))
        (Some (EditorInput 2 2 ''b''))
   \<and> isPinned (v_group (onDidEditorBecomeDirty
        \<lparr>v_group = \<lparr>gid = 0, label = [], editors = [EditorInput 1 1 ''a'', EditorInput 2 2 ''b''],
            mru = [EditorInput 1 1 ''a'', EditorInput 2 2 ''b''],
            preview = Some (EditorInput 2 2 ''b''), active = Some (EditorInput 1 1 ''a''),
            fired = []\<rparr>, enablePreview = True\<rparr> (EditorInput 2 2 ''b'')))
        (Some (EditorInput 2 2 ''b''))"
proof -
  let ?g = "\<lparr>gid = 0, label = [], editors = [EditorInput 1 1 ''a'', EditorInput 2 2 ''b''],
       mru = [EditorInput 1 1 ''a'', EditorInput 2 2 ''b''],
       preview = Some (EditorInput 2 2 ''b''), active = Some (EditorInput 1 1 ''a''), fired = []\<rparr>"
  let ?v = "\<lparr>v_group = ?g, enablePreview = True\<rparr>"
  have h1: "inv_core (v_group ?v)" by (simp add: inv_core_def)
  have h2: "indexOf (v_group ?v) (Some (EditorInput 2 2 ''b'')) \<ge> 0"
    by (simp add: indexOf_def indexOf_in_def input_matches_def)
  show ?thesis
    using C10_dirty_never_preview [OF h1, of True None RIGHT "EditorInput 2 2 ''b''"] h1 h2
    by simp
qed

section \<open>C8: operations on an editor or group that is not present\<close>

lemma absent_editor_noop:
  assumes "indexOf g (Some e) = -1"
  shows "closeEditor g (Some e) openNext = g"
    and "moveEditor g e toIndex = g"
    and "setActive g (Some e) = g"
  using assms by (simp_all add: closeEditor_def moveEditor_def setActive_def)

lemma null_editor_noop:
  "closeEditor g None openNext = g" "setActive g None = g"
  by (simp_all add: setActive_def)

lemma absent_group_noop:
  assumes "model_indexOf m grp = -1"
  shows "closeGroup registry m grp = m \<and> moveGroup m grp toIndex = m"
  using assms by (cases grp) (simp_all add: closeGroup_def moveGroup_def Let_def model_indexOf_def)

text \<open>
  \<open>setActive\<close> of the model compares with \<open>===\<close>: on a new model, whose active group is
  \<open>undefined\<close>, \<open>setActive(undefined)\<close> returns at once and \<open>setActive(null)\<close> assigns
  and fires.
\<close>

lemma setActive_strict_equality:
  "model_setActive (newEditorStacksModel ids h) Undefined = newEditorStacksModel ids h"
  "model_setActive (newEditorStacksModel ids h) Null
     = (newEditorStacksModel ids h)\<lparr>activeGroup := Null,
                                      modelFired := [GroupActivated Null, ModelChanged Null]\<rparr>"
  by (simp_all add: model_setActive_def model_fireEvent_def newEditorStacksModel_def)

text \<open>
  C8 holds for \<open>closeEditor\<close>, \<open>moveEditor\<close> and \<open>setActive\<close> of a group and for
  \<open>closeGroup\<close> and \<open>moveGroup\<close> of the model (lemmas \<open>absent_editor_noop\<close>,
  \<open>null_editor_noop\<close> and \<open>absent_group_noop\<close>), but the model's
  \<open>setActive\<close> has no such guard: after a group was opened and closed again, so that
  the model has no group and no active group, \<open>setActive\<close> with the closed group makes it
  the active group and fires the activation event, while it is still not in \<open>groups\<close>.
\<close>

theorem C8_setActive_absent_group:
  "groups (closeGroup (\<lambda>_. None)
             (snd (openGroup (newEditorStacksModel 0 (\<lambda>i. newEditorGroup i [])) ''a'' True None))
             (Ref 0)) = []
   \<and> activeGroup (closeGroup (\<lambda>_. None)
             (snd (openGroup (newEditorStacksModel 0 (\<lambda>i. newEditorGroup i [])) ''a'' True None))
             (Ref 0)) = Null
   \<and> model_indexOf (closeGroup (\<lambda>_. None)
             (snd (openGroup (newEditorStacksModel 0 (\<lambda>i. newEditorGroup i [])) ''a'' True None))
             (Ref 0)) (Ref 0) = -1
   \<and> activeGroup (model_setActive (closeGroup (\<lambda>_. None)
             (snd (openGroup (newEditorStacksModel 0 (\<lambda>i. newEditorGroup i [])) ''a'' True None))
             (Ref 0)) (Ref 0)) = Ref 0
   \<and> groups (model_setActive (closeGroup (\<lambda>_. None)
             (snd (openGroup (newEditorStacksModel 0 (\<lambda>i. newEditorGroup i [])) ''a'' True None))
             (Ref 0)) (Ref 0)) = []"
  by code_simp

section \<open>C2: the recently closed editors\<close>

lemma recentlyClosed_closeIfUnused [simp]:
  "recentlyClosedEditors (closeIfUnused e m) = recentlyClosedEditors m"
  by (simp add: closeIfUnused_def)

lemma recentlyClosed_bounded:
  "length (recentlyClosedEditors m) \<le> 10
     \<Longrightarrow> length (recentlyClosedEditors (onEditorClosed registry m editor pinned)) \<le> 10"
  by (cases editor) (auto simp: onEditorClosed_def Let_def split: option.splits)

text \<open>
  C2: the buffer never holds more than ten entries (lemma \<open>recentlyClosed_bounded\<close>),
  but \<open>onEditorClosed\<close> pushes the new entry and then keeps \<open>slice(0, 10)\<close>, the ten
  oldest. After eleven pinned, serializable editors were closed, numbered 1 to 11 in
  closing order and serialized to a string of as many letters, the buffer holds editors
  1 to 10: the entry dropped is the most recent one, not the oldest, and the last entry
  is not the editor closed last.
\<close>

theorem C2_newest_entry_dropped:
  "map (\<lambda>s. length (s_value s))
     (recentlyClosedEditors
        (fold (\<lambda>e m. onEditorClosed
                 (\<lambda>i. Some \<lparr>f_serialize = (\<lambda>e. Some (replicate (mkey e) CHR ''x'')),
                            f_deserialize = (\<lambda>v. EditorInput 0 (length v) ''file'')\<rparr>)
                 m e True)
           (map (\<lambda>k. EditorInput k k ''file'') [1, 2, 3, 4, 5, 6, 7, 8, 9, 10, 11])
           (newEditorStacksModel 0 (\<lambda>i. newEditorGroup i []))))
   = [1, 2, 3, 4, 5, 6, 7, 8, 9, 10]"
  by code_simp

section \<open>C3: opening a group at an index\<close>

lemma openGroup_at_end:
  "groups (snd (openGroup m l activate (Some (length (groups m))))) = groups m @ [Some (IDS m)]"
  by (simp add: openGroup_def doCreateGroup_def Let_def js_set_def model_fireEvent_def
        model_setActive_def)

text \<open>
  C3: \<open>openGroup\<close> with a numeric index assigns \<open>this._groups[index] = group\<close>; only
  when the index is the length of the list is that an insertion (lemma
  \<open>openGroup_at_end\<close>). In a model with one group, opening a group at index 0 replaces
  that group: the list still has one element, the old group is no longer in it while
  \<open>groupToIdentifier\<close> still holds it and its events are still listened to. At index 2
  the list grows by two, with a hole at index 1.
\<close>

theorem C3_openGroup_overwrites:
  "groups (snd (openGroup (newEditorStacksModel 0 (\<lambda>i. newEditorGroup i [])) ''a'' True None))
     = [Some 0]
   \<and> groups (snd (openGroup
        (snd (openGroup (newEditorStacksModel 0 (\<lambda>i. newEditorGroup i [])) ''a'' True None))
        ''b'' True (Some 0))) = [Some 1]
   \<and> groupToIdentifier (snd (openGroup
        (snd (openGroup (newEditorStacksModel 0 (\<lambda>i. newEditorGroup i [])) ''a'' True None))
        ''b'' True (Some 0))) 0 = Some 0
   \<and> 0 \<in> listening (snd (openGroup
        (snd (openGroup (newEditorStacksModel 0 (\<lambda>i. newEditorGroup i [])) ''a'' True None))
        ''b'' True (Some 0)))
   \<and> groups (snd (openGroup
        (snd (openGroup (newEditorStacksModel 0 (\<lambda>i. newEditorGroup i [])) ''a'' True None))
        ''b'' True (Some 2))) = [Some 0, None, Some 1]"
  by code_simp

section \<open>C7: validation of the persisted model\<close>

lemma js_get_None_iff: "js_get xs i = None \<longleftrightarrow> i < 0 \<or> int (length xs) \<le> i"
  by (auto simp: js_get_def)

lemma check1: "(s_groups s = [] \<and> s_active s \<noteq> None) = active_without_groups s"
  by (auto simp: active_without_groups_def)

lemma check2:
  "(s_groups s \<noteq> [] \<and> (case s_active s of None \<Rightarrow> True | Some a \<Rightarrow> js_get (s_groups s) a = None))
     = active_unresolved s"
  by (auto simp: active_unresolved_def js_get_None_iff split: option.splits)

lemma check4: "list_ex (\<lambda>g. s_editors g = []) (s_groups s) = has_empty_group s"
  by (simp add: has_empty_group_def list_ex_iff)

lemma check5:
  "list_ex (\<lambda>g. length (s_editors g) \<noteq> length (s_mru g)) (s_groups s) = mru_length_mismatch s"
  by (simp add: mru_length_mismatch_def list_ex_iff)

lemma check6:
  "list_ex (\<lambda>g. case s_preview g of None \<Rightarrow> False | Some p \<Rightarrow> js_get (s_editors g) p = None)
     (s_groups s) = preview_out_of_range s"
  by (auto simp: preview_out_of_range_def list_ex_iff js_get_None_iff split: option.splits)

lemma check7: "list_ex (\<lambda>g. s_label g = []) (s_groups s) = has_empty_label s"
  by (simp add: has_empty_label_def list_ex_iff)

lemma doValidate_spec:
  "doValidate s =
     (if active_without_groups s then 1
      else if active_unresolved s then 2
      else if too_many_groups s then 3
      else if has_empty_group s then 4
      else if mru_length_mismatch s then 5
      else if preview_out_of_range s then 6
      else if has_empty_label s then 7
      else 0)"
  unfolding doValidate_def check1 check2 check4 check5 check6 check7
  by (simp add: too_many_groups_def)

lemma load_invalid:
  assumes "modelRaw w = Parsed s" and "doValidate s \<noteq> 0"
  shows "load registry config w m = Inr (w, m)"
  using assms by (simp add: load_def)

text \<open>
  C7: \<open>doValidate\<close> returns 0 exactly when none of the seven violations is present, and
  otherwise the code of the first violation in the order active index with no groups
  (1), active index resolving to no group (2), more than three groups (3), a group
  without editors (4), editors and mru of different lengths (5), preview index out of
  range (6), empty label (7): seven different non-zero codes. When the stored model has
  a non-zero code, the first access to a fresh model returns normally and leaves the
  model as constructed, with no group, no active group and no recently closed editor.
\<close>

theorem C7_doValidate_and_load:
  "(doValidate s = 0 \<longleftrightarrow>
      \<not> (active_without_groups s \<or> active_unresolved s \<or> too_many_groups s
         \<or> has_empty_group s \<or> mru_length_mismatch s \<or> preview_out_of_range s
         \<or> has_empty_label s))
   \<and> (doValidate s = 1 \<longleftrightarrow> active_without_groups s)
   \<and> (doValidate s = 2 \<longleftrightarrow> \<not> active_without_groups s \<and> active_unresolved s)
   \<and> (doValidate s = 3 \<longleftrightarrow>
        \<not> active_without_groups s \<and> \<not> active_unresolved s \<and> too_many_groups s)
   \<and> (doValidate s = 4 \<longleftrightarrow>
        \<not> active_without_groups s \<and> \<not> active_unresolved s \<and> \<not> too_many_groups s
        \<and> has_empty_group s)
   \<and> (doValidate s = 5 \<longleftrightarrow>
        \<not> active_without_groups s \<and> \<not> active_unresolved s \<and> \<not> too_many_groups s
        \<and> \<not> has_empty_group s \<and> mru_length_mismatch s)
   \<and> (doValidate s = 6 \<longleftrightarrow>
        \<not> active_without_groups s \<and> \<not> active_unresolved s \<and> \<not> too_many_groups s
        \<and> \<not> has_empty_group s \<and> \<not> mru_length_mismatch s \<and> preview_out_of_range s)
   \<and> (doValidate s = 7 \<longleftrightarrow>
        \<not> active_without_groups s \<and> \<not> active_unresolved s \<and> \<not> too_many_groups s
        \<and> \<not> has_empty_group s \<and> \<not> mru_length_mismatch s \<and> \<not> preview_out_of_range s
        \<and> has_empty_label s)
   \<and> doValidate s \<le> 7
   \<and> (modelRaw w = Parsed s \<and> doValidate s \<noteq> 0 \<longrightarrow>
        ensureLoaded registry config w (newEditorStacksModel ids h)
          = Inr (w, (newEditorStacksModel ids h)\<lparr>loaded := True\<rparr>)
        \<and> groups ((newEditorStacksModel ids h)\<lparr>loaded := True\<rparr>) = []
        \<and> activeGroup ((newEditorStacksModel ids h)\<lparr>loaded := True\<rparr>) = Undefined
        \<and> recentlyClosedEditors ((newEditorStacksModel ids h)\<lparr>loaded := True\<rparr>) = [])"
proof -
  have "modelRaw w = Parsed s \<and> doValidate s \<noteq> 0 \<longrightarrow>
        ensureLoaded registry config w (newEditorStacksModel ids h)
          = Inr (w, (newEditorStacksModel ids h)\<lparr>loaded := True\<rparr>)"
    by (simp add: ensureLoaded_def load_invalid newEditorStacksModel_def)
  moreover have "groups ((newEditorStacksModel ids h)\<lparr>loaded := True\<rparr>) = []
        \<and> activeGroup ((newEditorStacksModel ids h)\<lparr>loaded := True\<rparr>) = Undefined
        \<and> recentlyClosedEditors ((newEditorStacksModel ids h)\<lparr>loaded := True\<rparr>) = []"
    by (simp add: newEditorStacksModel_def)
  ultimately show ?thesis
    unfolding doValidate_spec by simp
qed

theorem C7_doValidate_and_load_witness:
  "doValidate \<lparr>s_groups = [], s_active = Some 0, s_lastClosed = None\<rparr> = 1
   \<and> ensureLoaded (\<lambda>_. None) RIGHT
        \<lparr>filesRequested = False,
          modelRaw = Parsed \<lparr>s_groups = [], s_active = Some 0, s_lastClosed = None\<rparr>,
          legacyModelRaw = NoLegacy\<rparr>
        (newEditorStacksModel 0 (\<lambda>i. newEditorGroup i []))
       = Inr (\<lparr>filesRequested = False,
                modelRaw = Parsed \<lparr>s_groups = [], s_active = Some 0, s_lastClosed = None\<rparr>,
                legacyModelRaw = NoLegacy\<rparr>,
              (newEditorStacksModel 0 (\<lambda>i. newEditorGroup i []))\<lparr>loaded := True\<rparr>)
   \<and> doValidate \<lparr>s_groups = [\<lparr>s_label = ''g'', s_editors = [\<lparr>s_id = ''f'', s_value = ''v''\<rparr>],
                                 s_mru = [0], s_preview = None\<rparr>],
                  s_active = Some 1, s_lastClosed = None\<rparr> = 2
   \<and> doValidate \<lparr>s_groups = replicate 4 \<lparr>s_label = ''g'', s_editors = [\<lparr>s_id = ''f'', s_value = ''v''\<rparr>],
                                 s_mru = [0], s_preview = None\<rparr>,
                  s_active = Some 0, s_lastClosed = None\<rparr> = 3
   \<and> doValidate \<lparr>s_groups = [\<lparr>s_label = ''g'', s_editors = [], s_mru = [], s_preview = None\<rparr>],
                  s_active = Some 0, s_lastClosed = None\<rparr> = 4
   \<and> doValidate \<lparr>s_groups = [\<lparr>s_label = ''g'', s_editors = [\<lparr>s_id = ''f'', s_value = ''v''\<rparr>],
                                 s_mru = [], s_preview = None\<rparr>],
                  s_active = Some 0, s_lastClosed = None\<rparr> = 5
   \<and> doValidate \<lparr>s_groups = [\<lparr>s_label = ''g'', s_editors = [\<lparr>s_id = ''f'', s_value = ''v''\<rparr>],
                                 s_mru = [0], s_preview = Some 3\<rparr>],
                  s_active = Some 0, s_lastClosed = None\<rparr> = 6
   \<and> doValidate \<lparr>s_groups = [\<lparr>s_label = [], s_editors = [\<lparr>s_id = ''f'', s_value = ''v''\<rparr>],
                                 s_mru = [0], s_preview = Some 0\<rparr>],
                  s_active = Some 0, s_lastClosed = None\<rparr> = 7
   \<and> doValidate \<lparr>s_groups = [\<lparr>s_label = ''g'', s_editors = [\<lparr>s_id = ''f'', s_value = ''v''\<rparr>],
                                 s_mru = [0], s_preview = Some 0\<rparr>],
                  s_active = Some 0, s_lastClosed = None\<rparr> = 0"
proof -
  let ?s = "\<lparr>s_groups = [], s_active = Some 0, s_lastClosed = None\<rparr>"
  let ?w = "\<lparr>filesRequested = False, modelRaw = Parsed ?s, legacyModelRaw = NoLegacy\<rparr>"
  have v: "active_without_groups ?s" by (simp add: active_without_groups_def)
  have c1: "doValidate ?s = 1"
    using C7_doValidate_and_load [of ?s ?w "\<lambda>_. None" RIGHT 0 "\<lambda>i. newEditorGroup i []"] v
    by blast
  have ld: "ensureLoaded (\<lambda>_. None) RIGHT ?w (newEditorStacksModel 0 (\<lambda>i. newEditorGroup i []))
       = Inr (?w, (newEditorStacksModel 0 (\<lambda>i. newEditorGroup i []))\<lparr>loaded := True\<rparr>)"
    using C7_doValidate_and_load [of ?s ?w "\<lambda>_. None" RIGHT 0 "\<lambda>i. newEditorGroup i []"] c1
    by simp
  show ?thesis
    by (intro conjI, rule c1, rule ld) code_simp+
qed

section \<open>C9: next and previous\<close>

lemma js_indexOf_loop_nth:
  "distinct xs \<Longrightarrow> i < length xs \<Longrightarrow> xs ! i = Some v \<Longrightarrow> js_indexOf_loop v xs k = k + int i"
proof (induction xs arbitrary: i k)
  case Nil
  then show ?case by simp
next
  case (Cons x xs)
  show ?case
  proof (cases i)
    case 0
    then show ?thesis using Cons.prems by simp
  next
    case (Suc j)
    then have "Some v \<in> set xs" using Cons.prems by (metis Suc_less_eq length_Cons nth_Cons_Suc nth_mem)
    then have "x \<noteq> Some v" using Cons.prems by auto
    then show ?thesis using Cons.IH [of j "k + 1"] Cons.prems Suc by simp
  qed
qed

lemma indexOf_loop_nth:
  "distinct (map mkey xs) \<Longrightarrow> j < length xs \<Longrightarrow> indexOf_loop (xs ! j) xs k = k + int j"
proof (induction xs arbitrary: j k)
  case Nil
  then show ?case by simp
next
  case (Cons x xs)
  show ?case
  proof (cases j)
    case 0
    then show ?thesis by (simp add: input_matches_def)
  next
    case (Suc j')
    then have "xs ! j' \<in> set xs" using Cons.prems by simp
    then have "mkey x \<noteq> mkey (xs ! j')" using Cons.prems by auto
    then show ?thesis using Cons.IH [of j' "k + 1"] Cons.prems Suc
      by (simp add: input_matches_def)
  qed
qed

lemma indexOf_in_js_get:
  assumes "distinct (map mkey es)" and "-1 \<le> jj" and "jj < int (length es)"
  shows "indexOf_in (js_get es jj) es = jj"
proof (cases "jj = -1")
  case True
  then show ?thesis by (simp add: js_get_def)
next
  case False
  then have "0 \<le> jj" using assms(2) by simp
  then show ?thesis
    using indexOf_loop_nth [OF assms(1), of "nat jj" 0] assms(3)
    by (simp add: js_get_def indexOf_in_def)
qed

lemma js_get_h_present:
  "None \<notin> set xs \<Longrightarrow> i < length xs \<Longrightarrow> js_get_h xs (int i) = xs ! i"
  by (cases "xs ! i") (auto simp: js_get_h_def js_get_def dest: nth_mem)

lemma js_get_h_outside:
  "i < 0 \<or> int (length xs) \<le> i \<Longrightarrow> js_get_h xs i = None"
  by (auto simp: js_get_h_def js_get_def)

lemma currentAt_fields [simp]:
  "groups (currentAt m x) = groups m"
  "activeGroup (currentAt m x) = Ref (ei_group x)"
  "editors (heap (currentAt m x) k) = editors (heap m k)"
  "active (heap (currentAt m x) (ei_group x)) = ei_editor x"
  by (simp_all add: currentAt_def)

lemma stable_group_distinct:
  assumes "stable_model m" and "i < length (groups m)" and "groups m ! i = Some g"
  shows "distinct (map mkey (editors (heap m g)))"
proof -
  have "Some g \<in> set (groups m)" using assms(2,3) by (metis nth_mem)
  then have "g \<in> set (present (groups m))"
    by (force simp: present_def List.map_filter_def image_iff)
  then show ?thesis using assms(1) by (simp add: stable_model_def)
qed

text \<open>The starting point the two functions compute, for a position given by indices.\<close>

lemma start_indices:
  assumes st: "stable_model m" and i: "i < length (groups m)" and g: "groups m ! i = Some g"
    and jj: "-1 \<le> jj" "jj < int (length (editors (heap m g)))"
  shows "indexOf (heap (currentAt m \<lparr>ei_group = g, ei_editor = js_get (editors (heap m g)) jj\<rparr>) g)
           (active (heap (currentAt m \<lparr>ei_group = g, ei_editor = js_get (editors (heap m g)) jj\<rparr>) g))
         = jj"
    and "model_indexOf (currentAt m \<lparr>ei_group = g, ei_editor = js_get (editors (heap m g)) jj\<rparr>)
           (Ref g) = int i"
proof -
  let ?x = "\<lparr>ei_group = g, ei_editor = js_get (editors (heap m g)) jj\<rparr>"
  have d: "distinct (map mkey (editors (heap m g)))" by (rule stable_group_distinct [OF st i g])
  have "active (heap (currentAt m ?x) g) = js_get (editors (heap m g)) jj"
    using currentAt_fields(4) [of m ?x] by simp
  then show "indexOf (heap (currentAt m ?x) g) (active (heap (currentAt m ?x) g)) = jj"
    using indexOf_in_js_get [OF d jj] by (simp add: indexOf_def)
  have "distinct (groups m)" using st by (simp add: stable_model_def)
  then show "model_indexOf (currentAt m ?x) (Ref g) = int i"
    using js_indexOf_loop_nth [of "groups m" i g 0] i g by (simp add: model_indexOf_def)
qed

lemma no_holes: "stable_model m \<Longrightarrow> None \<notin> set (groups m)"
  by (simp add: stable_model_def)

lemma next_at:
  assumes st: "stable_model m" and i: "i < length (groups m)" and g: "groups m ! i = Some g"
    and jj: "-1 \<le> jj" "jj < int (length (editors (heap m g)))"
  shows "jj + 1 < int (length (editors (heap m g))) \<Longrightarrow>
           model_next (currentAt m \<lparr>ei_group = g, ei_editor = js_get (editors (heap m g)) jj\<rparr>)
             = Inr (Some \<lparr>ei_group = g, ei_editor = js_get (editors (heap m g)) (jj + 1)\<rparr>)"
    and "\<not> jj + 1 < int (length (editors (heap m g))) \<Longrightarrow> Suc i < length (groups m)
           \<Longrightarrow> groups m ! Suc i = Some g2 \<Longrightarrow>
           model_next (currentAt m \<lparr>ei_group = g, ei_editor = js_get (editors (heap m g)) jj\<rparr>)
             = Inr (Some \<lparr>ei_group = g2, ei_editor = js_get (editors (heap m g2)) 0\<rparr>)"
    and "\<not> jj + 1 < int (length (editors (heap m g))) \<Longrightarrow> Suc i = length (groups m)
           \<Longrightarrow> groups m ! 0 = Some f \<Longrightarrow>
           model_next (currentAt m \<lparr>ei_group = g, ei_editor = js_get (editors (heap m g)) jj\<rparr>)
             = Inr (Some \<lparr>ei_group = f, ei_editor = js_get (editors (heap m f)) 0\<rparr>)"
proof -
  let ?x = "\<lparr>ei_group = g, ei_editor = js_get (editors (heap m g)) jj\<rparr>"
  note S = start_indices [OF st i g jj]
  have unf: "model_next (currentAt m ?x) =
      (if jj + 1 < int (length (editors (heap m g)))
       then Inr (Some \<lparr>ei_group = g, ei_editor = js_get (editors (heap m g)) (jj + 1)\<rparr>)
       else (case js_get_h (groups m) (int i + 1) of
               Some nextGroup \<Rightarrow>
                 Inr (Some \<lparr>ei_group = nextGroup, ei_editor = js_get (editors (heap m nextGroup)) 0\<rparr>)
             | None \<Rightarrow>
                 (case js_get_h (groups m) 0 of
                    Some firstGroup \<Rightarrow>
                      Inr (Some \<lparr>ei_group = firstGroup,
                                 ei_editor = js_get (editors (heap m firstGroup)) 0\<rparr>)
                  | None \<Rightarrow> Inl TypeError)))"
    unfolding model_next_def using S
    by (simp add: Let_def getEditor_def count_editors_def cong: option.case_cong)
  show "jj + 1 < int (length (editors (heap m g))) \<Longrightarrow>
           model_next (currentAt m ?x)
             = Inr (Some \<lparr>ei_group = g, ei_editor = js_get (editors (heap m g)) (jj + 1)\<rparr>)"
    by (simp add: unf)
  show "\<not> jj + 1 < int (length (editors (heap m g))) \<Longrightarrow> Suc i < length (groups m)
           \<Longrightarrow> groups m ! Suc i = Some g2 \<Longrightarrow>
           model_next (currentAt m ?x)
             = Inr (Some \<lparr>ei_group = g2, ei_editor = js_get (editors (heap m g2)) 0\<rparr>)"
  proof -
    assume a: "\<not> jj + 1 < int (length (editors (heap m g)))" "Suc i < length (groups m)"
      "groups m ! Suc i = Some g2"
    have "js_get_h (groups m) (int (Suc i)) = Some g2"
      using js_get_h_present [OF no_holes [OF st] a(2)] a(3) by simp
    then have n1: "js_get_h (groups m) (int i + 1) = Some g2" by (simp add: add.commute)
    show ?thesis using a(1) by (simp add: unf n1)
  qed
  show "\<not> jj + 1 < int (length (editors (heap m g))) \<Longrightarrow> Suc i = length (groups m)
           \<Longrightarrow> groups m ! 0 = Some f \<Longrightarrow>
           model_next (currentAt m ?x)
             = Inr (Some \<lparr>ei_group = f, ei_editor = js_get (editors (heap m f)) 0\<rparr>)"
  proof -
    assume a: "\<not> jj + 1 < int (length (editors (heap m g)))" "Suc i = length (groups m)"
      "groups m ! 0 = Some f"
    have n1: "js_get_h (groups m) (int i + 1) = None"
      using a(2) by (intro js_get_h_outside) linarith
    have "0 < length (groups m)" using i by linarith
    then have "js_get_h (groups m) (int 0) = Some f"
      using js_get_h_present [OF no_holes [OF st], of 0] a(3) by simp
    then have n0: "js_get_h (groups m) 0 = Some f" by simp
    show ?thesis using a(1) by (simp add: unf n1 n0)
  qed
qed

lemma previous_at:
  assumes st: "stable_model m" and i: "i < length (groups m)" and g: "groups m ! i = Some g"
    and jj: "-1 \<le> jj" "jj < int (length (editors (heap m g)))"
  shows "0 < jj \<Longrightarrow>
           model_previous (currentAt m \<lparr>ei_group = g, ei_editor = js_get (editors (heap m g)) jj\<rparr>)
             = Inr (Some \<lparr>ei_group = g, ei_editor = js_get (editors (heap m g)) (jj - 1)\<rparr>)"
    and "\<not> 0 < jj \<Longrightarrow> i = Suc k \<Longrightarrow> groups m ! k = Some g0 \<Longrightarrow>
           model_previous (currentAt m \<lparr>ei_group = g, ei_editor = js_get (editors (heap m g)) jj\<rparr>)
             = Inr (Some \<lparr>ei_group = g0,
                        ei_editor = js_get (editors (heap m g0))
                                      (int (length (editors (heap m g0))) - 1)\<rparr>)"
    and "\<not> 0 < jj \<Longrightarrow> i = 0 \<Longrightarrow> groups m ! (length (groups m) - 1) = Some l \<Longrightarrow>
           model_previous (currentAt m \<lparr>ei_group = g, ei_editor = js_get (editors (heap m g)) jj\<rparr>)
             = Inr (Some \<lparr>ei_group = l,
                        ei_editor = js_get (editors (heap m l))
                                      (int (length (editors (heap m l))) - 1)\<rparr>)"
proof -
  let ?x = "\<lparr>ei_group = g, ei_editor = js_get (editors (heap m g)) jj\<rparr>"
  note S = start_indices [OF st i g jj]
  have unf: "model_previous (currentAt m ?x) =
      (if 0 < jj
       then Inr (Some \<lparr>ei_group = g, ei_editor = js_get (editors (heap m g)) (jj - 1)\<rparr>)
       else (case js_get_h (groups m) (int i - 1) of
               Some previousGroup \<Rightarrow>
                 Inr (Some \<lparr>ei_group = previousGroup,
                            ei_editor = js_get (editors (heap m previousGroup))
                                          (int (length (editors (heap m previousGroup))) - 1)\<rparr>)
             | None \<Rightarrow>
                 (case js_get_h (groups m) (int (length (groups m)) - 1) of
                    Some lastGroup \<Rightarrow>
                      Inr (Some \<lparr>ei_group = lastGroup,
                                 ei_editor = js_get (editors (heap m lastGroup))
                                               (int (length (editors (heap m lastGroup))) - 1)\<rparr>)
                  | None \<Rightarrow> Inl TypeError)))"
    unfolding model_previous_def using S
    by (simp add: Let_def getEditor_def count_editors_def cong: option.case_cong)
  show "0 < jj \<Longrightarrow> model_previous (currentAt m ?x)
             = Inr (Some \<lparr>ei_group = g, ei_editor = js_get (editors (heap m g)) (jj - 1)\<rparr>)"
    by (simp add: unf)
  show "\<not> 0 < jj \<Longrightarrow> i = Suc k \<Longrightarrow> groups m ! k = Some g0 \<Longrightarrow>
           model_previous (currentAt m ?x)
             = Inr (Some \<lparr>ei_group = g0,
                        ei_editor = js_get (editors (heap m g0))
                                      (int (length (editors (heap m g0))) - 1)\<rparr>)"
  proof -
    assume a: "\<not> 0 < jj" "i = Suc k" "groups m ! k = Some g0"
    have "js_get_h (groups m) (int k) = Some g0"
      using js_get_h_present [OF no_holes [OF st], of k] i a(2,3) by simp
    then have n1: "js_get_h (groups m) (int i - 1) = Some g0" using a(2) by simp
    show ?thesis using a(1) by (simp add: unf n1)
  qed
  show "\<not> 0 < jj \<Longrightarrow> i = 0 \<Longrightarrow> groups m ! (length (groups m) - 1) = Some l \<Longrightarrow>
           model_previous (currentAt m ?x)
             = Inr (Some \<lparr>ei_group = l,
                        ei_editor = js_get (editors (heap m l))
                                      (int (length (editors (heap m l))) - 1)\<rparr>)"
  proof -
    assume a: "\<not> 0 < jj" "i = 0" "groups m ! (length (groups m) - 1) = Some l"
    have n1: "js_get_h (groups m) (int i - 1) = None"
      using a(2) by (intro js_get_h_outside) simp
    have "js_get_h (groups m) (int (length (groups m) - 1)) = Some l"
      using js_get_h_present [OF no_holes [OF st], of "length (groups m) - 1"] i a(3) by simp
    moreover have "int (length (groups m) - 1) = int (length (groups m)) - 1"
      using i by simp
    ultimately have n2: "js_get_h (groups m) (int (length (groups m)) - 1) = Some l" by simp
    show ?thesis using a(1) by (simp add: unf n1 n2)
  qed
qed

lemma nth_Some:
  assumes "stable_model m" and "k < length (groups m)"
  obtains g where "groups m ! k = Some g"
  using assms no_holes [OF assms(1)] by (metis nth_mem option.exhaust)

lemma present_no_holes: "None \<notin> set xs \<Longrightarrow> map Some (present xs) = xs"
proof (induction xs)
  case Nil
  then show ?case by (simp add: present_def List.map_filter_def)
next
  case (Cons a xs)
  then obtain y where "a = Some y" by (cases a) auto
  then show ?case using Cons by (simp add: present_def List.map_filter_def)
qed

lemma concat_at:
  assumes "i < length xss" and "j < length (xss ! i)"
  shows "concat xss ! (length (concat (take i xss)) + j) = xss ! i ! j"
    and "length (concat (take i xss)) + j < length (concat xss)"
proof -
  have "xss = take i xss @ xss ! i # drop (Suc i) xss"
    using assms(1) by (rule id_take_nth_drop)
  then have c: "concat xss = concat (take i xss) @ xss ! i @ concat (drop (Suc i) xss)"
    by (metis concat.simps(2) concat_append)
  show "concat xss ! (length (concat (take i xss)) + j) = xss ! i ! j"
    using assms(2) by (subst c) (simp add: nth_append)
  have "length (concat xss) = length (concat (take i xss)) + length (xss ! i)
          + length (concat (drop (Suc i) xss))"
    by (subst c) simp
  then show "length (concat (take i xss)) + j < length (concat xss)"
    using assms(2) by linarith
qed

lemma concat_index:
  "k < length (concat xss) \<Longrightarrow>
     \<exists>i j. i < length xss \<and> j < length (xss ! i) \<and> k = length (concat (take i xss)) + j"
proof (induction xss arbitrary: k)
  case Nil
  then show ?case by simp
next
  case (Cons xs xss)
  show ?case
  proof (cases "k < length xs")
    case True
    then have "0 < length (xs # xss) \<and> k < length ((xs # xss) ! 0)
                 \<and> k = length (concat (take 0 (xs # xss))) + k" by simp
    then show ?thesis by blast
  next
    case False
    then have "k - length xs < length (concat xss)" using Cons.prems by simp
    then obtain i j where ij: "i < length xss" "j < length (xss ! i)"
        "k - length xs = length (concat (take i xss)) + j"
      using Cons.IH by blast
    have "Suc i < length (xs # xss) \<and> j < length ((xs # xss) ! Suc i)
            \<and> k = length (concat (take (Suc i) (xs # xss))) + j"
      using ij False by simp
    then show ?thesis by blast
  qed
qed

lemma concat_offset_Suc:
  "i < length xss \<Longrightarrow>
     length (concat (take (Suc i) xss)) = length (concat (take i xss)) + length (xss ! i)"
  by (simp add: take_Suc_conv_app_nth)

text \<open>The flattened sequence, read through the indices of a group and of an editor in it.\<close>

lemma flattened_at:
  assumes st: "stable_model m" and i: "i < length (groups m)" and g: "groups m ! i = Some g"
    and j: "j < length (editors (heap m g))"
  shows "flattened m
           ! (length (concat (take i (map (\<lambda>g. map (\<lambda>e. \<lparr>ei_group = g, ei_editor = Some e\<rparr>)
                                            (editors (heap m g))) (present (groups m))))) + j)
         = \<lparr>ei_group = g, ei_editor = js_get (editors (heap m g)) (int j)\<rparr>"
    and "length (concat (take i (map (\<lambda>g. map (\<lambda>e. \<lparr>ei_group = g, ei_editor = Some e\<rparr>)
                                            (editors (heap m g))) (present (groups m))))) + j
         < length (flattened m)"
proof -
  let ?row = "\<lambda>g. map (\<lambda>e. \<lparr>ei_group = g, ei_editor = Some e\<rparr>) (editors (heap m g))"
  let ?rows = "map ?row (present (groups m))"
  have G: "map Some (present (groups m)) = groups m"
    by (rule present_no_holes [OF no_holes [OF st]])
  have len: "length (present (groups m)) = length (groups m)" by (metis G length_map)
  have "Some (present (groups m) ! i) = groups m ! i" using i len by (metis G nth_map)
  then have pg: "present (groups m) ! i = g" using g by simp
  have i': "i < length ?rows" using i len by simp
  have ri: "?rows ! i = ?row g" using i len pg by simp
  have j': "j < length (?rows ! i)" using j ri by simp
  have "concat ?rows ! (length (concat (take i ?rows)) + j) = ?rows ! i ! j"
    by (rule concat_at(1) [OF i' j'])
  also have "\<dots> = \<lparr>ei_group = g, ei_editor = js_get (editors (heap m g)) (int j)\<rparr>"
    using j by (simp add: ri js_get_def)
  finally show "flattened m ! (length (concat (take i ?rows)) + j)
         = \<lparr>ei_group = g, ei_editor = js_get (editors (heap m g)) (int j)\<rparr>"
    by (simp add: flattened_def)
  show "length (concat (take i ?rows)) + j < length (flattened m)"
    using concat_at(2) [OF i' j'] by (simp add: flattened_def)
qed

lemma flattened_index:
  assumes st: "stable_model m" and k: "k < length (flattened m)"
  obtains i g j where "i < length (groups m)" and "groups m ! i = Some g"
    and "j < length (editors (heap m g))"
    and "k = length (concat (take i (map (\<lambda>g. map (\<lambda>e. \<lparr>ei_group = g, ei_editor = Some e\<rparr>)
                                            (editors (heap m g))) (present (groups m))))) + j"
proof -
  let ?row = "\<lambda>g. map (\<lambda>e. \<lparr>ei_group = g, ei_editor = Some e\<rparr>) (editors (heap m g))"
  let ?rows = "map ?row (present (groups m))"
  have G: "map Some (present (groups m)) = groups m"
    by (rule present_no_holes [OF no_holes [OF st]])
  have len: "length (present (groups m)) = length (groups m)" by (metis G length_map)
  obtain i j where ij: "i < length ?rows" "j < length (?rows ! i)"
      "k = length (concat (take i ?rows)) + j"
    using concat_index [of k ?rows] k by (auto simp: flattened_def)
  have i: "i < length (groups m)" using ij(1) len by simp
  have "Some (present (groups m) ! i) = groups m ! i" using i len by (metis G nth_map)
  then have g: "groups m ! i = Some (present (groups m) ! i)" by simp
  have "j < length (editors (heap m (present (groups m) ! i)))" using ij(1,2) by simp
  then show ?thesis using that [OF i g _ ij(3)] by blast
qed

lemma offset_step:
  assumes st: "stable_model m" and i: "i < length (groups m)" and g: "groups m ! i = Some g"
  shows "length (concat (take (Suc i) (map (\<lambda>g. map (\<lambda>e. \<lparr>ei_group = g, ei_editor = Some e\<rparr>)
                                            (editors (heap m g))) (present (groups m)))))
         = length (concat (take i (map (\<lambda>g. map (\<lambda>e. \<lparr>ei_group = g, ei_editor = Some e\<rparr>)
                                            (editors (heap m g))) (present (groups m))))) + length (editors (heap m g))"
proof -
  let ?rows = "(map (\<lambda>g. map (\<lambda>e. \<lparr>ei_group = g, ei_editor = Some e\<rparr>)
                                            (editors (heap m g))) (present (groups m)))"
  have G: "map Some (present (groups m)) = groups m"
    by (rule present_no_holes [OF no_holes [OF st]])
  have len: "length (present (groups m)) = length (groups m)" by (metis G length_map)
  have "Some (present (groups m) ! i) = groups m ! i" using i len by (metis G nth_map)
  then have pg: "present (groups m) ! i = g" using g by simp
  have i': "i < length ?rows" using i len by simp
  have "length (?rows ! i) = length (editors (heap m g))" using i len pg by simp
  then show ?thesis using concat_offset_Suc [OF i'] by simp
qed

lemma offset_total:
  assumes st: "stable_model m"
  shows "length (concat (take (length (groups m)) (map (\<lambda>g. map (\<lambda>e. \<lparr>ei_group = g, ei_editor = Some e\<rparr>)
                                            (editors (heap m g))) (present (groups m))))) = length (flattened m)"
proof -
  have G: "map Some (present (groups m)) = groups m"
    by (rule present_no_holes [OF no_holes [OF st]])
  have len: "length (present (groups m)) = length (groups m)" by (metis G length_map)
  show ?thesis by (simp add: flattened_def len [symmetric])
qed

lemma nonempty_at:
  assumes st: "stable_model m" and ne: "no_empty_group m"
    and i: "i < length (groups m)" and g: "groups m ! i = Some g"
  shows "0 < length (editors (heap m g))"
proof -
  have "Some g \<in> set (groups m)" using i g by (metis nth_mem)
  then have "g \<in> set (present (groups m))"
    by (force simp: present_def List.map_filter_def image_iff)
  then show ?thesis using ne by (simp add: no_empty_group_def list_all_iff)
qed

lemma next_flattened:
  assumes st: "stable_model m" and ne: "no_empty_group m" and k: "k < length (flattened m)"
  shows "model_next (currentAt m (flattened m ! k))
         = Inr (Some (flattened m ! ((k + 1) mod length (flattened m))))"
proof -
  let ?off = "\<lambda>i. length (concat (take i (map (\<lambda>g. map (\<lambda>e. \<lparr>ei_group = g, ei_editor = Some e\<rparr>)
                                            (editors (heap m g))) (present (groups m)))))"
  obtain i g j where i: "i < length (groups m)" and g: "groups m ! i = Some g"
    and j: "j < length (editors (heap m g))" and kk: "k = ?off i + j"
    by (rule flattened_index [OF st k])
  let ?es = "editors (heap m g)"
  have x: "flattened m ! k = \<lparr>ei_group = g, ei_editor = js_get ?es (int j)\<rparr>"
    unfolding kk by (rule flattened_at(1) [OF st i g j])
  have jj: "-1 \<le> int j" "int j < int (length ?es)" using j by simp_all
  note N = next_at [OF st i g jj]
  show ?thesis
  proof (cases "Suc j < length ?es")
    case True
    have t: "int j + 1 < int (length ?es)" using True by simp
    have "flattened m ! (?off i + Suc j) = \<lparr>ei_group = g, ei_editor = js_get ?es (int (Suc j))\<rparr>"
      by (rule flattened_at(1) [OF st i g True])
    moreover have "?off i + Suc j < length (flattened m)" by (rule flattened_at(2) [OF st i g True])
    ultimately have "flattened m ! ((k + 1) mod length (flattened m))
                       = \<lparr>ei_group = g, ei_editor = js_get ?es (int j + 1)\<rparr>"
      by (simp add: kk add.commute)
    then show ?thesis using N(1) [OF t] by (simp only: x)
  next
    case False
    then have f: "\<not> int j + 1 < int (length ?es)" by simp
    have "length ?es = Suc j" using False j by simp
    then have k1: "?off (Suc i) = k + 1" using offset_step [OF st i g] kk by simp
    show ?thesis
    proof (cases "Suc i < length (groups m)")
      case True
      obtain g2 where g2: "groups m ! Suc i = Some g2" using nth_Some [OF st True] by blast
      have z: "0 < length (editors (heap m g2))" by (rule nonempty_at [OF st ne True g2])
      have "flattened m ! (?off (Suc i) + 0)
              = \<lparr>ei_group = g2, ei_editor = js_get (editors (heap m g2)) (int 0)\<rparr>"
        by (rule flattened_at(1) [OF st True g2 z])
      moreover have "?off (Suc i) + 0 < length (flattened m)"
        by (rule flattened_at(2) [OF st True g2 z])
      ultimately have "flattened m ! ((k + 1) mod length (flattened m))
                         = \<lparr>ei_group = g2, ei_editor = js_get (editors (heap m g2)) 0\<rparr>"
        by (simp add: k1)
      then show ?thesis using N(2) [OF f True g2] by (simp only: x)
    next
      case nn: False
      then have n: "Suc i = length (groups m)" using i by linarith
      have z0: "0 < length (groups m)" using i by linarith
      obtain f0 where f0: "groups m ! 0 = Some f0" using nth_Some [OF st z0] by blast
      have z: "0 < length (editors (heap m f0))" by (rule nonempty_at [OF st ne z0 f0])
      have "k + 1 = length (flattened m)" using k1 offset_total [OF st] n by simp
      then have md: "(k + 1) mod length (flattened m) = 0" by simp
      have "flattened m ! (?off 0 + 0)
              = \<lparr>ei_group = f0, ei_editor = js_get (editors (heap m f0)) (int 0)\<rparr>"
        by (rule flattened_at(1) [OF st z0 f0 z])
      then have "flattened m ! 0
                   = \<lparr>ei_group = f0, ei_editor = js_get (editors (heap m f0)) 0\<rparr>"
        by simp
      then have "flattened m ! ((k + 1) mod length (flattened m))
                   = \<lparr>ei_group = f0, ei_editor = js_get (editors (heap m f0)) 0\<rparr>"
        by (simp only: md)
      then show ?thesis using N(3) [OF f n f0] by (simp only: x)
    qed
  qed
qed

lemma mod_back: "k < n \<Longrightarrow> 0 < k \<Longrightarrow> (k + n - 1) mod n = k - (1::nat)"
  by (cases k) simp_all

lemma prev_flattened:
  assumes st: "stable_model m" and ne: "no_empty_group m" and k: "k < length (flattened m)"
  shows "model_previous (currentAt m (flattened m ! k))
         = Inr (Some (flattened m ! ((k + length (flattened m) - 1) mod length (flattened m))))"
proof -
  let ?off = "\<lambda>i. length (concat (take i (map (\<lambda>g. map (\<lambda>e. \<lparr>ei_group = g, ei_editor = Some e\<rparr>)
                                            (editors (heap m g))) (present (groups m)))))"
  obtain i g j where i: "i < length (groups m)" and g: "groups m ! i = Some g"
    and j: "j < length (editors (heap m g))" and kk: "k = ?off i + j"
    by (rule flattened_index [OF st k])
  let ?es = "editors (heap m g)"
  let ?N = "length (flattened m)"
  have x: "flattened m ! k = \<lparr>ei_group = g, ei_editor = js_get ?es (int j)\<rparr>"
    unfolding kk by (rule flattened_at(1) [OF st i g j])
  have jj: "-1 \<le> int j" "int j < int (length ?es)" using j by simp_all
  note P = previous_at [OF st i g jj]
  have wrap: "0 < k \<Longrightarrow> (k + ?N - 1) mod ?N = k - 1"
    using k by (rule mod_back)
  show ?thesis
  proof (cases "0 < j")
    case True
    then have t: "0 < int j" by simp
    have j1: "j - 1 < length ?es" using j by simp
    have "flattened m ! (?off i + (j - 1)) = \<lparr>ei_group = g, ei_editor = js_get ?es (int (j - 1))\<rparr>"
      by (rule flattened_at(1) [OF st i g j1])
    moreover have "?off i + (j - 1) = k - 1" using True kk by linarith
    moreover have "int (j - 1) = int j - 1" using True by simp
    moreover have "0 < k" using True kk by linarith
    then have "(k + ?N - 1) mod ?N = k - 1" by (rule wrap)
    ultimately have "flattened m ! ((k + ?N - 1) mod ?N)
                       = \<lparr>ei_group = g, ei_editor = js_get ?es (int j - 1)\<rparr>"
      by (simp only:)
    then show ?thesis using P(1) [OF t] by (simp only: x)
  next
    case False
    then have f: "\<not> 0 < int j" and j0: "j = 0" by simp_all
    show ?thesis
    proof (cases i)
      case (Suc i0)
      have i0: "i0 < length (groups m)" using i Suc by simp
      obtain g0 where g0: "groups m ! i0 = Some g0" using nth_Some [OF st i0] by blast
      let ?e0 = "editors (heap m g0)"
      have z: "0 < length ?e0" by (rule nonempty_at [OF st ne i0 g0])
      then have l1: "length ?e0 - 1 < length ?e0" by simp
      have "flattened m ! (?off i0 + (length ?e0 - 1))
              = \<lparr>ei_group = g0, ei_editor = js_get ?e0 (int (length ?e0 - 1))\<rparr>"
        by (rule flattened_at(1) [OF st i0 g0 l1])
      moreover have kq: "k = ?off i0 + length ?e0"
        using offset_step [OF st i0 g0] kk j0 Suc by simp
      then have "?off i0 + (length ?e0 - 1) = k - 1" using z by linarith
      moreover have "int (length ?e0 - 1) = int (length ?e0) - 1" using z by linarith
      moreover have "0 < k" using z kq by linarith
      then have "(k + ?N - 1) mod ?N = k - 1" by (rule wrap)
      ultimately have "flattened m ! ((k + ?N - 1) mod ?N)
                         = \<lparr>ei_group = g0, ei_editor = js_get ?e0 (int (length ?e0) - 1)\<rparr>"
        by (simp only:)
      then show ?thesis using P(2) [OF f Suc g0] by (simp only: x)
    next
      case 0
      let ?L = "length (groups m) - 1"
      have L: "?L < length (groups m)" using i by simp
      obtain l where l: "groups m ! ?L = Some l" using nth_Some [OF st L] by blast
      let ?el = "editors (heap m l)"
      have z: "0 < length ?el" by (rule nonempty_at [OF st ne L l])
      then have l1: "length ?el - 1 < length ?el" by simp
      have "flattened m ! (?off ?L + (length ?el - 1))
              = \<lparr>ei_group = l, ei_editor = js_get ?el (int (length ?el - 1))\<rparr>"
        by (rule flattened_at(1) [OF st L l l1])
      moreover have "Suc ?L = length (groups m)" using i by simp
      then have "?N = ?off ?L + length ?el"
        using offset_step [OF st L l] offset_total [OF st] by simp
      then have "?off ?L + (length ?el - 1) = ?N - 1" using z by linarith
      moreover have "int (length ?el - 1) = int (length ?el) - 1" using z by linarith
      moreover have "k = 0" using kk 0 j0 by simp
      then have "(k + ?N - 1) mod ?N = ?N - 1" using k by simp
      ultimately have "flattened m ! ((k + ?N - 1) mod ?N)
                         = \<lparr>ei_group = l, ei_editor = js_get ?el (int (length ?el) - 1)\<rparr>"
        by (simp only:)
      then show ?thesis using P(3) [OF f 0 l] by (simp only: x)
    qed
  qed
qed

lemma mod_ring: "k < n \<Longrightarrow> ((k + 1) mod n + n - 1) mod n = (k::nat)"
proof (cases "k + 1 < n")
  case True
  assume "k < n"
  have "(k + 1) mod n + n - 1 = k + n" using True by simp
  then show ?thesis using \<open>k < n\<close> by simp
next
  case False
  assume "k < n"
  then have "k + 1 = n" using False by linarith
  then have "(k + 1) mod n + n - 1 = k" by auto
  then show ?thesis using \<open>k < n\<close> by simp
qed

lemma flattened_ends:
  assumes ne: "no_empty_group m" and f: "flattened m \<noteq> []"
  shows "flattened m ! 0
           = \<lparr>ei_group = hd (present (groups m)),
              ei_editor = Some (hd (editors (heap m (hd (present (groups m))))))\<rparr>"
    and "flattened m ! (length (flattened m) - 1)
           = \<lparr>ei_group = last (present (groups m)),
              ei_editor = Some (last (editors (heap m (last (present (groups m))))))\<rparr>"
proof -
  let ?row = "\<lambda>g. map (\<lambda>e. \<lparr>ei_group = g, ei_editor = Some e\<rparr>) (editors (heap m g))"
  let ?ps = "present (groups m)"
  have ps: "?ps \<noteq> []" using f by (auto simp: flattened_def)
  have h: "editors (heap m (hd ?ps)) \<noteq> []" and l: "editors (heap m (last ?ps)) \<noteq> []"
    using ne ps by (simp_all add: no_empty_group_def list_all_iff)
  obtain p qs where pq: "?ps = p # qs" using ps by (cases ?ps) auto
  have "flattened m = ?row p @ concat (map ?row qs)" by (simp add: flattened_def pq)
  moreover have "?row p \<noteq> []" using h pq by simp
  ultimately have "hd (flattened m) = hd (?row p)" by simp
  also have "\<dots> = \<lparr>ei_group = p, ei_editor = Some (hd (editors (heap m p)))\<rparr>"
    using h pq by (simp add: hd_map)
  finally show "flattened m ! 0
           = \<lparr>ei_group = hd ?ps, ei_editor = Some (hd (editors (heap m (hd ?ps))))\<rparr>"
    using f pq by (simp add: hd_conv_nth)
  obtain rs r where rs: "?ps = rs @ [r]" using ps by (cases ?ps rule: rev_cases) auto
  have lr: "last ?ps = r" by (simp add: rs)
  have "flattened m = concat (map ?row rs) @ ?row r" by (simp add: flattened_def rs)
  moreover have "?row r \<noteq> []" using l lr by simp
  ultimately have "last (flattened m) = last (?row r)" by simp
  also have "\<dots> = \<lparr>ei_group = r, ei_editor = Some (last (editors (heap m r)))\<rparr>"
    using l lr by (simp add: last_map)
  finally have "last (flattened m)
                  = \<lparr>ei_group = r, ei_editor = Some (last (editors (heap m r)))\<rparr>" .
  then show "flattened m ! (length (flattened m) - 1)
           = \<lparr>ei_group = last ?ps, ei_editor = Some (last (editors (heap m (last ?ps))))\<rparr>"
    using f by (simp only: lr last_conv_nth [OF f, symmetric])
qed

text \<open>
  The ring does not survive a group without editors. \<open>next()\<close> and \<open>previous()\<close> step to
  the neighbouring group whatever it holds and return it with \<open>getEditor(0)\<close> or
  \<open>getEditor(count - 1)\<close>, which is \<open>undefined\<close> for an empty group. After two calls of
  \<open>openGroup\<close> and one \<open>openEditor\<close> in the second group the model is stable, the
  flattened sequence is the one editor of the second group, which is the active editor of
  the active group, and both functions return the first group with no editor: not an
  element of the flattened sequence, whose only successor and predecessor is that editor.
\<close>

theorem C9_counterexample:
  "stable_model
     (inGroup (\<lambda>_. None)
        (snd (openGroup (snd (openGroup (newEditorStacksModel 0 (\<lambda>i. newEditorGroup i []))
                                ''left'' True None))
                        ''right'' True None))
        1 (\<lambda>g. openEditor RIGHT g (EditorInput 1 1 ''a'') None))
   \<and> groups
     (inGroup (\<lambda>_. None)
        (snd (openGroup (snd (openGroup (newEditorStacksModel 0 (\<lambda>i. newEditorGroup i []))
                                ''left'' True None))
                        ''right'' True None))
        1 (\<lambda>g. openEditor RIGHT g (EditorInput 1 1 ''a'') None)) = [Some 0, Some 1]
   \<and> editors (heap
     (inGroup (\<lambda>_. None)
        (snd (openGroup (snd (openGroup (newEditorStacksModel 0 (\<lambda>i. newEditorGroup i []))
                                ''left'' True None))
                        ''right'' True None))
        1 (\<lambda>g. openEditor RIGHT g (EditorInput 1 1 ''a'') None)) 0) = []
   \<and> editors (heap
     (inGroup (\<lambda>_. None)
        (snd (openGroup (snd (openGroup (newEditorStacksModel 0 (\<lambda>i. newEditorGroup i []))
                                ''left'' True None))
                        ''right'' True None))
        1 (\<lambda>g. openEditor RIGHT g (EditorInput 1 1 ''a'') None)) 1) = [EditorInput 1 1 ''a'']
   \<and> activeGroup
     (inGroup (\<lambda>_. None)
        (snd (openGroup (snd (openGroup (newEditorStacksModel 0 (\<lambda>i. newEditorGroup i []))
                                ''left'' True None))
                        ''right'' True None))
        1 (\<lambda>g. openEditor RIGHT g (EditorInput 1 1 ''a'') None)) = Ref 1
   \<and> active (heap
     (inGroup (\<lambda>_. None)
        (snd (openGroup (snd (openGroup (newEditorStacksModel 0 (\<lambda>i. newEditorGroup i []))
                                ''left'' True None))
                        ''right'' True None))
        1 (\<lambda>g. openEditor RIGHT g (EditorInput 1 1 ''a'') None)) 1) = Some (EditorInput 1 1 ''a'')
   \<and> flattened
     (inGroup (\<lambda>_. None)
        (snd (openGroup (snd (openGroup (newEditorStacksModel 0 (\<lambda>i. newEditorGroup i []))
                                ''left'' True None))
                        ''right'' True None))
        1 (\<lambda>g. openEditor RIGHT g (EditorInput 1 1 ''a'') None)) = [\<lparr>ei_group = 1, ei_editor = Some (EditorInput 1 1 ''a'')\<rparr>]
   \<and> model_next
     (inGroup (\<lambda>_. None)
        (snd (openGroup (snd (openGroup (newEditorStacksModel 0 (\<lambda>i. newEditorGroup i []))
                                ''left'' True None))
                        ''right'' True None))
        1 (\<lambda>g. openEditor RIGHT g (EditorInput 1 1 ''a'') None)) = Inr (Some \<lparr>ei_group = 0, ei_editor = None\<rparr>)
   \<and> model_previous
     (inGroup (\<lambda>_. None)
        (snd (openGroup (snd (openGroup (newEditorStacksModel 0 (\<lambda>i. newEditorGroup i []))
                                ''left'' True None))
                        ''right'' True None))
        1 (\<lambda>g. openEditor RIGHT g (EditorInput 1 1 ''a'') None)) = Inr (Some \<lparr>ei_group = 0, ei_editor = None\<rparr>)
   \<and> model_next (currentAt
     (inGroup (\<lambda>_. None)
        (snd (openGroup (snd (openGroup (newEditorStacksModel 0 (\<lambda>i. newEditorGroup i []))
                                ''left'' True None))
                        ''right'' True None))
        1 (\<lambda>g. openEditor RIGHT g (EditorInput 1 1 ''a'') None))
     \<lparr>ei_group = 1, ei_editor = Some (EditorInput 1 1 ''a'')\<rparr>)
       = Inr (Some \<lparr>ei_group = 0, ei_editor = None\<rparr>)"
  by code_simp

text \<open>
  C9, for a stable model in which every group has an editor. Let \<open>N\<close> be the length of
  the flattened sequence of all groups' editors (group order, then editor order within
  the group). From its \<open>k\<close>-th position \<open>next()\<close> returns the position \<open>(k + 1) mod N\<close> and
  \<open>previous()\<close> the position \<open>(k + N - 1) mod N\<close>; \<open>previous()\<close> from the position that
  \<open>next()\<close> returned gives the starting position; \<open>next()\<close> from the last position returns
  the first and \<open>previous()\<close> from the first returns the last, where the first position is
  the first editor of the first group and the last position the last editor of the last
  group; and in every model whose active group is \<open>undefined\<close> or \<open>null\<close> both return null.
\<close>

theorem C9_next_previous_ring:
  assumes st: "stable_model m" and ne: "no_empty_group m" and k: "k < length (flattened m)"
  shows "model_next (currentAt m (flattened m ! k))
           = Inr (Some (flattened m ! ((k + 1) mod length (flattened m))))
         \<and> model_previous (currentAt m (flattened m ! k))
           = Inr (Some (flattened m ! ((k + length (flattened m) - 1) mod length (flattened m))))
         \<and> model_previous (currentAt m (flattened m ! ((k + 1) mod length (flattened m))))
           = Inr (Some (flattened m ! k))
         \<and> model_next (currentAt m (flattened m ! (length (flattened m) - 1)))
           = Inr (Some (flattened m ! 0))
         \<and> model_previous (currentAt m (flattened m ! 0))
           = Inr (Some (flattened m ! (length (flattened m) - 1)))
         \<and> flattened m ! 0
           = \<lparr>ei_group = hd (present (groups m)),
              ei_editor = Some (hd (editors (heap m (hd (present (groups m))))))\<rparr>
         \<and> flattened m ! (length (flattened m) - 1)
           = \<lparr>ei_group = last (present (groups m)),
              ei_editor = Some (last (editors (heap m (last (present (groups m))))))\<rparr>
         \<and> (falsy (activeGroup n) \<longrightarrow> model_next n = Inr None \<and> model_previous n = Inr None)"
proof -
  let ?N = "length (flattened m)"
  have pos: "0 < ?N" and f: "flattened m \<noteq> []" using k by auto
  have k1: "(k + 1) mod ?N < ?N" using pos by simp
  have l: "?N - 1 < ?N" using pos by simp
  have a: "model_next (currentAt m (flattened m ! k))
             = Inr (Some (flattened m ! ((k + 1) mod ?N)))"
    by (rule next_flattened [OF st ne k])
  have b: "model_previous (currentAt m (flattened m ! k))
             = Inr (Some (flattened m ! ((k + ?N - 1) mod ?N)))"
    by (rule prev_flattened [OF st ne k])
  have c: "model_previous (currentAt m (flattened m ! ((k + 1) mod ?N)))
             = Inr (Some (flattened m ! k))"
    using prev_flattened [OF st ne k1] by (simp only: mod_ring [OF k])
  have "(?N - 1 + 1) mod ?N = 0" using pos by simp
  then have d: "model_next (currentAt m (flattened m ! (?N - 1))) = Inr (Some (flattened m ! 0))"
    using next_flattened [OF st ne l] by (simp only:)
  have "(0 + ?N - 1) mod ?N = ?N - 1" using pos by simp
  then have e: "model_previous (currentAt m (flattened m ! 0))
                  = Inr (Some (flattened m ! (?N - 1)))"
    using prev_flattened [OF st ne pos] by (simp only:)
  note g = flattened_ends [OF ne f]
  have h: "falsy (activeGroup n) \<longrightarrow> model_next n = Inr None \<and> model_previous n = Inr None"
    by (cases "activeGroup n") (simp_all add: falsy_def model_next_def model_previous_def)
  show ?thesis by (intro conjI) (rule a b c d e g(1) g(2) h)+
qed

theorem C9_next_previous_ring_witness:
  "stable_model
     \<lparr>IDS = 2,
          heap = (\<lambda>i. if i = 0
                      then \<lparr>gid = 0, label = ''left'',
                             editors = [EditorInput 1 1 ''a'', EditorInput 2 2 ''b''],
                             mru = [EditorInput 1 1 ''a'', EditorInput 2 2 ''b''],
                             preview = None, active = Some (EditorInput 1 1 ''a''), fired = []\<rparr>
                      else \<lparr>gid = 1, label = ''right'',
                             editors = [EditorInput 3 3 ''c''],
                             mru = [EditorInput 3 3 ''c''],
                             preview = None, active = Some (EditorInput 3 3 ''c''), fired = []\<rparr>),
          loaded = True, groups = [Some 0, Some 1], activeGroup = Ref 0,
          groupToIdentifier = (\<lambda>i. if i < 2 then Some i else None),
          recentlyClosedEditors = [], listening = {0, 1}, closeCalls = [], modelFired = []\<rparr>
   \<and> no_empty_group
     \<lparr>IDS = 2,
          heap = (\<lambda>i. if i = 0
                      then \<lparr>gid = 0, label = ''left'',
                             editors = [EditorInput 1 1 ''a'', EditorInput 2 2 ''b''],
                             mru = [EditorInput 1 1 ''a'', EditorInput 2 2 ''b''],
                             preview = None, active = Some (EditorInput 1 1 ''a''), fired = []\<rparr>
                      else \<lparr>gid = 1, label = ''right'',
                             editors = [EditorInput 3 3 ''c''],
                             mru = [EditorInput 3 3 ''c''],
                             preview = None, active = Some (EditorInput 3 3 ''c''), fired = []\<rparr>),
          loaded = True, groups = [Some 0, Some 1], activeGroup = Ref 0,
          groupToIdentifier = (\<lambda>i. if i < 2 then Some i else None),
          recentlyClosedEditors = [], listening = {0, 1}, closeCalls = [], modelFired = []\<rparr>
   \<and> flattened
     \<lparr>IDS = 2,
          heap = (\<lambda>i. if i = 0
                      then \<lparr>gid = 0, label = ''left'',
                             editors = [EditorInput 1 1 ''a'', EditorInput 2 2 ''b''],
                             mru = [EditorInput 1 1 ''a'', EditorInput 2 2 ''b''],
                             preview = None, active = Some (EditorInput 1 1 ''a''), fired = []\<rparr>
                      else \<lparr>gid = 1, label = ''right'',
                             editors = [EditorInput 3 3 ''c''],
                             mru = [EditorInput 3 3 ''c''],
                             preview = None, active = Some (EditorInput 3 3 ''c''), fired = []\<rparr>),
          loaded = True, groups = [Some 0, Some 1], activeGroup = Ref 0,
          groupToIdentifier = (\<lambda>i. if i < 2 then Some i else None),
          recentlyClosedEditors = [], listening = {0, 1}, closeCalls = [], modelFired = []\<rparr>
     = [\<lparr>ei_group = 0, ei_editor = Some (EditorInput 1 1 ''a'')\<rparr>,
        \<lparr>ei_group = 0, ei_editor = Some (EditorInput 2 2 ''b'')\<rparr>,
        \<lparr>ei_group = 1, ei_editor = Some (EditorInput 3 3 ''c'')\<rparr>]
   \<and> model_next (currentAt
     \<lparr>IDS = 2,
          heap = (\<lambda>i. if i = 0
                      then \<lparr>gid = 0, label = ''left'',
                             editors = [EditorInput 1 1 ''a'', EditorInput 2 2 ''b''],
                             mru = [EditorInput 1 1 ''a'', EditorInput 2 2 ''b''],
                             preview = None, active = Some (EditorInput 1 1 ''a''), fired = []\<rparr>
                      else \<lparr>gid = 1, label = ''right'',
                             editors = [EditorInput 3 3 ''c''],
                             mru = [EditorInput 3 3 ''c''],
                             preview = None, active = Some (EditorInput 3 3 ''c''), fired = []\<rparr>),
          loaded = True, groups = [Some 0, Some 1], activeGroup = Ref 0,
          groupToIdentifier = (\<lambda>i. if i < 2 then Some i else None),
          recentlyClosedEditors = [], listening = {0, 1}, closeCalls = [], modelFired = []\<rparr>
     \<lparr>ei_group = 1, ei_editor = Some (EditorInput 3 3 ''c'')\<rparr>)
       = Inr (Some \<lparr>ei_group = 0, ei_editor = Some (EditorInput 1 1 ''a'')\<rparr>)
   \<and> model_previous (currentAt
     \<lparr>IDS = 2,
          heap = (\<lambda>i. if i = 0
                      then \<lparr>gid = 0, label = ''left'',
                             editors = [EditorInput 1 1 ''a'', EditorInput 2 2 ''b''],
                             mru = [EditorInput 1 1 ''a'', EditorInput 2 2 ''b''],
                             preview = None, active = Some (EditorInput 1 1 ''a''), fired = []\<rparr>
                      else \<lparr>gid = 1, label = ''right'',
                             editors = [EditorInput 3 3 ''c''],
                             mru = [EditorInput 3 3 ''c''],
                             preview = None, active = Some (EditorInput 3 3 ''c''), fired = []\<rparr>),
          loaded = True, groups = [Some 0, Some 1], activeGroup = Ref 0,
          groupToIdentifier = (\<lambda>i. if i < 2 then Some i else None),
          recentlyClosedEditors = [], listening = {0, 1}, closeCalls = [], modelFired = []\<rparr>
     \<lparr>ei_group = 1, ei_editor = Some (EditorInput 3 3 ''c'')\<rparr>)
       = Inr (Some \<lparr>ei_group = 0, ei_editor = Some (EditorInput 2 2 ''b'')\<rparr>)
   \<and> model_previous (currentAt
     \<lparr>IDS = 2,
          heap = (\<lambda>i. if i = 0
                      then \<lparr>gid = 0, label = ''left'',
                             editors = [EditorInput 1 1 ''a'', EditorInput 2 2 ''b''],
                             mru = [EditorInput 1 1 ''a'', EditorInput 2 2 ''b''],
                             preview = None, active = Some (EditorInput 1 1 ''a''), fired = []\<rparr>
                      else \<lparr>gid = 1, label = ''right'',
                             editors = [EditorInput 3 3 ''c''],
                             mru = [EditorInput 3 3 ''c''],
                             preview = None, active = Some (EditorInput 3 3 ''c''), fired = []\<rparr>),
          loaded = True, groups = [Some 0, Some 1], activeGroup = Ref 0,
          groupToIdentifier = (\<lambda>i. if i < 2 then Some i else None),
          recentlyClosedEditors = [], listening = {0, 1}, closeCalls = [], modelFired = []\<rparr>
     \<lparr>ei_group = 0, ei_editor = Some (EditorInput 1 1 ''a'')\<rparr>)
       = Inr (Some \<lparr>ei_group = 1, ei_editor = Some (EditorInput 3 3 ''c'')\<rparr>)
   \<and> falsy (activeGroup (newEditorStacksModel 0 (\<lambda>i. newEditorGroup i [])))
   \<and> model_next (newEditorStacksModel 0 (\<lambda>i. newEditorGroup i [])) = Inr None
   \<and> model_previous (newEditorStacksModel 0 (\<lambda>i. newEditorGroup i [])) = Inr None"
proof -
  let ?m = "\<lparr>IDS = 2,
          heap = (\<lambda>i. if i = 0
                      then \<lparr>gid = 0, label = ''left'',
                             editors = [EditorInput 1 1 ''a'', EditorInput 2 2 ''b''],
                             mru = [EditorInput 1 1 ''a'', EditorInput 2 2 ''b''],
                             preview = None, active = Some (EditorInput 1 1 ''a''), fired = []\<rparr>
                      else \<lparr>gid = 1, label = ''right'',
                             editors = [EditorInput 3 3 ''c''],
                             mru = [EditorInput 3 3 ''c''],
                             preview = None, active = Some (EditorInput 3 3 ''c''), fired = []\<rparr>),
          loaded = True, groups = [Some 0, Some 1], activeGroup = Ref 0,
          groupToIdentifier = (\<lambda>i. if i < 2 then Some i else None),
          recentlyClosedEditors = [], listening = {0, 1}, closeCalls = [], modelFired = []\<rparr>"
  let ?n = "(newEditorStacksModel 0 (\<lambda>i. newEditorGroup i []))"
  have st: "stable_model ?m" by (simp add: stable_model_def present_def List.map_filter_def)
  have ne: "no_empty_group ?m" by (simp add: no_empty_group_def present_def List.map_filter_def)
  have fl: "flattened ?m
     = [\<lparr>ei_group = 0, ei_editor = Some (EditorInput 1 1 ''a'')\<rparr>,
        \<lparr>ei_group = 0, ei_editor = Some (EditorInput 2 2 ''b'')\<rparr>,
        \<lparr>ei_group = 1, ei_editor = Some (EditorInput 3 3 ''c'')\<rparr>]"
    by (simp add: flattened_def present_def List.map_filter_def)
  have k: "2 < length (flattened ?m)" unfolding fl by simp
  have fa: "falsy (activeGroup ?n)" by (simp add: falsy_def newEditorStacksModel_def)
  note R = C9_next_previous_ring [OF st ne k, of ?n]
  have a: "model_next (currentAt ?m \<lparr>ei_group = 1, ei_editor = Some (EditorInput 3 3 ''c'')\<rparr>)
       = Inr (Some \<lparr>ei_group = 0, ei_editor = Some (EditorInput 1 1 ''a'')\<rparr>)"
    using R [THEN conjunct1] unfolding fl by simp
  have b: "model_previous (currentAt ?m \<lparr>ei_group = 1, ei_editor = Some (EditorInput 3 3 ''c'')\<rparr>)
       = Inr (Some \<lparr>ei_group = 0, ei_editor = Some (EditorInput 2 2 ''b'')\<rparr>)"
    using R [THEN conjunct2, THEN conjunct1] unfolding fl by simp
  have c: "model_previous (currentAt ?m \<lparr>ei_group = 0, ei_editor = Some (EditorInput 1 1 ''a'')\<rparr>)
       = Inr (Some \<lparr>ei_group = 1, ei_editor = Some (EditorInput 3 3 ''c'')\<rparr>)"
    using R [THEN conjunct2, THEN conjunct2, THEN conjunct1] unfolding fl by simp
  have d: "model_next ?n = Inr None \<and> model_previous ?n = Inr None"
    using R fa by blast
  show ?thesis by (intro conjI) (rule st ne fl a b c fa d [THEN conjunct1] d [THEN conjunct2])+
qed

section \<open>C4: when an editor is physically closed\<close>

lemma isOpen_iff:
  "isOpen m e \<longleftrightarrow>
     (\<exists>k \<in> set (present (groups m)). mkey e \<in> set (map mkey (editors (heap m k))))"
  by (simp add: isOpen_def list_ex_iff indexOf_ge0)

lemma isOpen_cong:
  "groups m' = groups m \<Longrightarrow> (\<And>k. editors (heap m' k) = editors (heap m k))
     \<Longrightarrow> isOpen m' e = isOpen m e"
  by (simp add: isOpen_iff)

lemma closeIfUnused_fields [simp]:
  "groups (closeIfUnused e m) = groups m" "heap (closeIfUnused e m) = heap m"
  "listening (closeIfUnused e m) = listening m"
  by (simp_all add: closeIfUnused_def)

lemma isOpen_closeIfUnused [simp]: "isOpen (closeIfUnused x m) e = isOpen m e"
  by (rule isOpen_cong) simp_all



lemma onEditorClosed_frame [simp]:
  "groups (onEditorClosed registry m e pinned) = groups m"
  "heap (onEditorClosed registry m e pinned) = heap m"
  "listening (onEditorClosed registry m e pinned) = listening m"
  by (cases e; auto simp: onEditorClosed_def Let_def closeIfUnused_def split: option.splits)+











section \<open>C6: serializing and deserializing a group\<close>

text \<open>
  C6: \<open>serialize\<close> finds the preview among the serializable editors with \<open>===\<close>, while
  every other lookup of the group (and the mru indices of \<open>serialize\<close> itself two lines
  below) goes through \<open>matches\<close>. A file is opened as the preview through the input
  object with id 1 and then opened again at index 0 through another input object (id 2)
  for the same file, which matches the first: \<open>moveEditor\<close> stores the second object in
  \<open>editors\<close>, \<open>preview\<close> keeps the first. The group has one editor, which is its preview
  and is serializable; its serialized form has no preview, and the group restored from
  it has the editor but no preview.
\<close>

theorem C6_preview_lost:
  "run_ops (newEditorGroup 0 ''g'')
     [OpenEditor RIGHT (EditorInput 1 3 ''file'') None,
      OpenEditor RIGHT (EditorInput 2 3 ''file'')
        (Some \<lparr>o_pinned = False, o_active = False, o_index = Some 0\<rparr>)]
   = \<lparr>gid = 0, label = ''g'', editors = [EditorInput 2 3 ''file''],
       mru = [EditorInput 1 3 ''file''],
       preview = Some (EditorInput 1 3 ''file''),
       active = Some (EditorInput 1 3 ''file''),
       fired =
         [EditorOpened (EditorInput 1 3 ''file''), EditorChanged (EditorInput 1 3 ''file''),
          EditorActivated (EditorInput 1 3 ''file''), EditorChanged (EditorInput 1 3 ''file''),
          EditorMoved (EditorInput 2 3 ''file''), EditorChanged (EditorInput 2 3 ''file'')]\<rparr>
   \<and> isPreview
        \<lparr>gid = 0, label = ''g'', editors = [EditorInput 2 3 ''file''],
          mru = [EditorInput 1 3 ''file''],
          preview = Some (EditorInput 1 3 ''file''),
          active = Some (EditorInput 1 3 ''file''),
          fired =
            [EditorOpened (EditorInput 1 3 ''file''), EditorChanged (EditorInput 1 3 ''file''),
             EditorActivated (EditorInput 1 3 ''file''), EditorChanged (EditorInput 1 3 ''file''),
             EditorMoved (EditorInput 2 3 ''file''), EditorChanged (EditorInput 2 3 ''file'')]\<rparr>
        (Some (EditorInput 2 3 ''file''))
   \<and> serialize
        (\<lambda>i. if i = ''file''
              then Some \<lparr>f_serialize = (\<lambda>e. Some (replicate (mkey e) CHR ''x'')),
                         f_deserialize = (\<lambda>v. EditorInput 0 (length v) ''file'')\<rparr>
              else None)
        \<lparr>gid = 0, label = ''g'', editors = [EditorInput 2 3 ''file''],
          mru = [EditorInput 1 3 ''file''],
          preview = Some (EditorInput 1 3 ''file''),
          active = Some (EditorInput 1 3 ''file''),
          fired =
            [EditorOpened (EditorInput 1 3 ''file''), EditorChanged (EditorInput 1 3 ''file''),
             EditorActivated (EditorInput 1 3 ''file''), EditorChanged (EditorInput 1 3 ''file''),
             EditorMoved (EditorInput 2 3 ''file''), EditorChanged (EditorInput 2 3 ''file'')]\<rparr>
     = \<lparr>s_label = ''g'', s_editors = [\<lparr>s_id = ''file'', s_value = ''xxx''\<rparr>],
         s_mru = [0], s_preview = None\<rparr>
   \<and> deserialize
        (\<lambda>i. if i = ''file''
              then Some \<lparr>f_serialize = (\<lambda>e. Some (replicate (mkey e) CHR ''x'')),
                         f_deserialize = (\<lambda>v. EditorInput 0 (length v) ''file'')\<rparr>
              else None)
        1
        \<lparr>s_label = ''g'', s_editors = [\<lparr>s_id = ''file'', s_value = ''xxx''\<rparr>],
          s_mru = [0], s_preview = None\<rparr>
     = Inr \<lparr>gid = 1, label = ''g'', editors = [EditorInput 0 3 ''file''],
            mru = [EditorInput 0 3 ''file''], preview = None,
            active = Some (EditorInput 0 3 ''file''), fired = []\<rparr>"
  by (intro conjI) code_simp+

end
